theory Spec2Isabelle
  imports Main "HOL-Library.Word" "HOL-Library.Multiset"
begin

unbundle bit_operations_syntax

section \<open>Memory, effects and faults\<close>

text \<open>
  The library is C. Pointers are addresses (\<open>addr\<close>), a nullable pointer is an
  \<open>addr option\<close> with \<open>None\<close> for \<open>NULL\<close>, and a function pointer stored in
  an operation table is the identity of the function (\<open>fnptr\<close>), \<open>None\<close> when the slot
  is unset. Calls that leave the library (the application's callbacks, the kernel
  primitives, \<open>free\<close>, output on \<open>stderr\<close>) are recorded as events, in call order;
  \<open>Stderr_d\<close> is an \<open>fprintf\<close> whose format has one \<open>%d\<close>, with its argument, and
  \<open>Stderr_s\<close> one whose format has one \<open>%s\<close> filled with \<open>strerror\<close> of the argument.
  The locks of the source (\<open>pthread_mutex_lock\<close>/\<open>unlock\<close>) guard single field
  accesses; in this sequential model they have no effect and are not shown.
\<close>

type_synonym addr = nat
type_synonym fnptr = nat

record fuse_buf =
  buf_size :: nat
  buf_flags :: "32 word"
  buf_mem :: addr
  buf_fd :: int

datatype event =
    Stderr string
  | Stderr_d string int
  | Dispatch_resume addr int
  | Dispatch_release addr
  | Dispatch_group_async addr addr fuse_buf "addr option"
  | Free_mem "addr option"
  | Call_exit fnptr "addr option" int
  | Stderr_s string int
  | Free_chan addr
  | Call_chan_destroy fnptr addr
  | Call_process fnptr "addr option" addr nat "addr option"
  | Call_process_buf fnptr "addr option" fuse_buf "addr option"
  | Kern_unmount "addr option" int

text \<open>
  What C leaves undefined, or what stops the process, is a value of the model:
  an access through a pointer to no live object, an \<open>int\<close> leaving its range, and a
  failed \<open>assert\<close>.
\<close>

datatype fault = Invalid_Access | Signed_Overflow | Assert_Failed

definition INT_MAX :: int where
  "INT_MAX = 2 ^ 31 - 1"

definition INT_MIN :: int where
  "INT_MIN = - (2 ^ 31)"

text \<open>The values of \<open>errno.h\<close> on the platform the library is built for (Darwin).\<close>

definition EINTR :: int where
  "EINTR = 4"

definition EAGAIN :: int where
  "EAGAIN = 35"

section \<open>Channels and sessions (fuse\_session.c)\<close>

text \<open>
  \<open>struct fuse_chan\<close> and \<open>struct fuse_session\<close>, field by field; the fields carry the
  prefixes \<open>ch_\<close> and \<open>se_\<close> because both structs name a field \<open>op\<close> and \<open>data\<close>.
  The fields of \<open>struct fuse_session\<close> are those the functions of fuse\_session.c
  read and write. The lock of the channel is left out (see above).
\<close>

record fuse_chan_ops =
  op_receive :: "fnptr option"
  op_send :: "fnptr option"
  op_chan_destroy :: "fnptr option"

record fuse_chan =
  ch_retain_count :: int
  ch_op :: fuse_chan_ops
  ch_se :: "addr option"
  ch_fd :: int
  ch_disk :: "addr option"
  ch_bufsize :: nat
  ch_data :: "addr option"
  ch_compat :: int

record fuse_session_ops =
  op_process :: "fnptr option"
  op_exit :: "fnptr option"
  op_exited :: "fnptr option"
  op_destroy :: "fnptr option"

record fuse_session =
  se_op :: fuse_session_ops
  se_receive_buf :: "fnptr option"
  se_process_buf :: "fnptr option"
  se_data :: "addr option"
  se_exited :: int
  se_ch :: "addr option"

text \<open>
  The state a call runs in: the live channels and sessions by address (a freed or never
  allocated address maps to \<open>None\<close>), the retain counts CoreFoundation keeps for the
  disk-volume references (\<open>CFRetain\<close> adds one, \<open>CFRelease\<close> takes one), and the
  events so far.
\<close>

record world =
  chans :: "addr \<rightharpoonup> fuse_chan"
  sessions :: "addr \<rightharpoonup> fuse_session"
  cf :: "addr \<Rightarrow> int"
  log :: "event list"

definition emit :: "event \<Rightarrow> world \<Rightarrow> world" where
  "emit e w = w\<lparr>log := log w @ [e]\<rparr>"

definition CFRetain :: "addr \<Rightarrow> world \<Rightarrow> world" where
  "CFRetain d w = w\<lparr>cf := (cf w)(d := cf w d + 1)\<rparr>"

definition CFRelease :: "addr \<Rightarrow> world \<Rightarrow> world" where
  "CFRelease d w = w\<lparr>cf := (cf w)(d := cf w d - 1)\<rparr>"

text \<open>
  \<open>fuse_chan_new_common\<close>: \<open>malloc\<close> either fails (\<open>None\<close>) or yields the address
  of the new channel; the struct is zeroed, then the count is set to one and the
  arguments are stored.
\<close>

definition fuse_chan_new_common ::
  "addr option \<Rightarrow> fuse_chan_ops \<Rightarrow> int \<Rightarrow> nat \<Rightarrow> addr option \<Rightarrow> int \<Rightarrow> world
    \<Rightarrow> addr option \<times> world" where
  "fuse_chan_new_common malloc_res ops fd bufsize dat cmpt w =
     (case malloc_res of
        None \<Rightarrow> (None, emit (Stderr (''fuse: failed to allocate channel'' @ [CHR 0x0A])) w)
      | Some p \<Rightarrow>
          (Some p,
           w\<lparr>chans := (chans w)(p \<mapsto>
               \<lparr>ch_retain_count = 1, ch_op = ops, ch_se = None, ch_fd = fd,
                ch_disk = None, ch_bufsize = bufsize, ch_data = dat,
                ch_compat = cmpt\<rparr>)\<rparr>))"

definition fuse_chan_new ::
  "addr option \<Rightarrow> fuse_chan_ops \<Rightarrow> int \<Rightarrow> nat \<Rightarrow> addr option \<Rightarrow> world
    \<Rightarrow> addr option \<times> world" where
  "fuse_chan_new malloc_res ops fd bufsize dat w =
     fuse_chan_new_common malloc_res ops fd bufsize dat 0 w"

text \<open>
  \<open>fuse_chan_retain\<close> and \<open>fuse_chan_release\<close>. The counter is a C \<open>int\<close>: stepping
  it past \<open>INT_MAX\<close> or below \<open>INT_MIN\<close> is undefined and is a fault here. A release
  that brings the count to zero releases the disk-volume reference, if one is held,
  and frees the channel; from then on its address is dead.
\<close>

definition fuse_chan_retain :: "addr \<Rightarrow> world \<Rightarrow> fault + world" where
  "fuse_chan_retain p w =
     (case chans w p of
        None \<Rightarrow> Inl Invalid_Access
      | Some c \<Rightarrow>
          if ch_retain_count c = INT_MAX then Inl Signed_Overflow
          else Inr (w\<lparr>chans := (chans w)(p \<mapsto> c\<lparr>ch_retain_count := ch_retain_count c + 1\<rparr>)\<rparr>))"

definition fuse_chan_release :: "addr \<Rightarrow> world \<Rightarrow> fault + world" where
  "fuse_chan_release p w =
     (case chans w p of
        None \<Rightarrow> Inl Invalid_Access
      | Some c \<Rightarrow>
          if ch_retain_count c = INT_MIN then Inl Signed_Overflow
          else if ch_retain_count c - 1 = 0 then
            Inr (emit (Free_chan p)
                  ((case ch_disk c of None \<Rightarrow> w | Some d \<Rightarrow> CFRelease d w)
                     \<lparr>chans := (chans w)(p := None)\<rparr>))
          else Inr (w\<lparr>chans := (chans w)(p \<mapsto> c\<lparr>ch_retain_count := ch_retain_count c - 1\<rparr>)\<rparr>))"

text \<open>
  A finite sequence of \<open>retain\<close> and \<open>release\<close> calls on one channel. The calls run
  in order; the run stops at the first fault and reports it with the state reached.
\<close>

datatype rc_call = Retain | Release

definition rc_step :: "addr \<Rightarrow> rc_call \<Rightarrow> world \<Rightarrow> fault + world" where
  "rc_step p c w = (case c of Retain \<Rightarrow> fuse_chan_retain p w | Release \<Rightarrow> fuse_chan_release p w)"

fun rc_run :: "addr \<Rightarrow> rc_call list \<Rightarrow> world \<Rightarrow> world \<times> fault option" where
  "rc_run p [] w = (w, None)"
| "rc_run p (c # cs) w =
     (case rc_step p c w of Inl f \<Rightarrow> (w, Some f) | Inr w' \<Rightarrow> rc_run p cs w')"

text \<open>How often the channel at \<open>p\<close> was freed, and the calls of one kind in a sequence.\<close>

definition frees :: "addr \<Rightarrow> world \<Rightarrow> nat" where
  "frees p w = count_list (log w) (Free_chan p)"

definition calls :: "rc_call \<Rightarrow> rc_call list \<Rightarrow> int" where
  "calls c cs = int (count_list cs c)"

text \<open>
  \<open>fuse_chan_recv\<close> calls the receive operation of the channel: the one of the old
  (2.4) table when \<open>compat\<close> is set, the current one otherwise. What the operation
  returns is the application's: \<open>recv24\<close> and \<open>recv\<close> give the result of the call
  for the function stored in the table. \<open>fuse_chan_receive\<close> wraps the result.
\<close>

definition fuse_chan_recv ::
  "(fnptr option \<Rightarrow> addr \<Rightarrow> nat \<Rightarrow> int) \<Rightarrow> (fnptr option \<Rightarrow> addr \<Rightarrow> nat \<Rightarrow> int)
    \<Rightarrow> world \<Rightarrow> addr \<Rightarrow> nat \<Rightarrow> fault + int" where
  "fuse_chan_recv recv24 recv w p sz =
     (case chans w p of
        None \<Rightarrow> Inl Invalid_Access
      | Some c \<Rightarrow>
          if ch_compat c \<noteq> 0 then Inr (recv24 (op_receive (ch_op c)) p sz)
          else Inr (recv (op_receive (ch_op c)) p sz))"

definition fuse_chan_receive ::
  "(fnptr option \<Rightarrow> addr \<Rightarrow> nat \<Rightarrow> int) \<Rightarrow> (fnptr option \<Rightarrow> addr \<Rightarrow> nat \<Rightarrow> int)
    \<Rightarrow> world \<Rightarrow> addr \<Rightarrow> nat \<Rightarrow> fault + int" where
  "fuse_chan_receive recv24 recv w p sz =
     (case fuse_chan_recv recv24 recv w p sz of
        Inl f \<Rightarrow> Inl f
      | Inr res \<Rightarrow>
          Inr (if res \<ge> 0 then res
               else if res \<noteq> - EINTR \<and> res \<noteq> - EAGAIN then - 1 else 0))"

text \<open>
  Two bookkeeping functions over a call sequence, for a channel whose count is \<open>k\<close>:
  \<open>reach\<close> holds when the count stands at zero after some prefix of the calls, and
  \<open>passed\<close> when it does so with calls still to come.
\<close>

fun reach :: "int \<Rightarrow> rc_call list \<Rightarrow> bool" where
  "reach k [] = (k = 0)"
| "reach k (c # cs) = (k = 0 \<or> reach (case c of Retain \<Rightarrow> k + 1 | Release \<Rightarrow> k - 1) cs)"

fun passed :: "int \<Rightarrow> rc_call list \<Rightarrow> bool" where
  "passed k [] = False"
| "passed k (c # cs) = (k = 0 \<or> passed (case c of Retain \<Rightarrow> k + 1 | Release \<Rightarrow> k - 1) cs)"

text \<open>A state with no object in it, and an operation table, for concrete runs.\<close>

definition chan_ops0 :: fuse_chan_ops where
  "chan_ops0 = \<lparr>op_receive = Some 1, op_send = Some 2, op_chan_destroy = None\<rparr>"

definition world0 :: world where
  "world0 = \<lparr>chans = Map.empty, sessions = Map.empty, cf = (\<lambda>_. 0), log = []\<rparr>"

definition world1 :: world where
  "world1 = snd (fuse_chan_new (Some 7) chan_ops0 3 4096 None world0)"

text \<open>
  Binding a channel to a session and back. Each \<open>assert\<close> of the source is a branch
  that ends the call with \<open>Assert_Failed\<close>.
\<close>

definition fuse_session_add_chan :: "addr \<Rightarrow> addr \<Rightarrow> world \<Rightarrow> fault + world" where
  "fuse_session_add_chan sp cp w =
     (case sessions w sp of
        None \<Rightarrow> Inl Invalid_Access
      | Some s \<Rightarrow>
          if se_ch s \<noteq> None then Inl Assert_Failed
          else (case chans w cp of
                  None \<Rightarrow> Inl Invalid_Access
                | Some c \<Rightarrow>
                    if ch_se c \<noteq> None then Inl Assert_Failed
                    else Inr (w\<lparr>sessions := (sessions w)(sp \<mapsto> s\<lparr>se_ch := Some cp\<rparr>),
                                chans := (chans w)(cp \<mapsto> c\<lparr>ch_se := Some sp\<rparr>)\<rparr>)))"

definition fuse_session_remove_chan :: "addr \<Rightarrow> world \<Rightarrow> fault + world" where
  "fuse_session_remove_chan cp w =
     (case chans w cp of
        None \<Rightarrow> Inl Invalid_Access
      | Some c \<Rightarrow>
          (case ch_se c of
             None \<Rightarrow> Inr w
           | Some sp \<Rightarrow>
               (case sessions w sp of
                  None \<Rightarrow> Inl Invalid_Access
                | Some s \<Rightarrow>
                    if se_ch s \<noteq> Some cp then Inl Assert_Failed
                    else Inr (w\<lparr>sessions := (sessions w)(sp \<mapsto> s\<lparr>se_ch := None\<rparr>),
                                chans := (chans w)(cp \<mapsto> c\<lparr>ch_se := None\<rparr>)\<rparr>))))"

definition fuse_session_next_chan :: "addr \<Rightarrow> addr option \<Rightarrow> world \<Rightarrow> fault + addr option" where
  "fuse_session_next_chan sp ch w =
     (case sessions w sp of
        None \<Rightarrow> Inl Invalid_Access
      | Some s \<Rightarrow>
          if \<not> (ch = None \<or> ch = se_ch s) then Inl Assert_Failed
          else if ch = None then Inr (se_ch s) else Inr None)"

text \<open>
  Processing a request. \<open>fuse_session_process\<close> calls the \<open>process\<close> operation of the
  session its first argument points to, with that session's data. A call through an
  unset function pointer is an invalid access.

  \<open>fuse_session_process_buf\<close> takes the buffer by value here (the source takes a
  pointer it only reads). Without a \<open>process_buf\<close> operation it asserts that the
  buffer holds memory and calls \<open>fuse_session_process\<close>; the first argument of that
  call is \<open>se->data\<close>, as the source has it, so the \<open>void *\<close> stored as the session's
  data is what is read as a session there. \<open>FUSE_BUF_IS_FD\<close> is \<open>(1 << 1)\<close> in
  fuse\_common.h (a header outside these sources).
\<close>

definition FUSE_BUF_IS_FD :: "32 word" where
  "FUSE_BUF_IS_FD = push_bit 1 1"

definition fuse_session_process ::
  "addr \<Rightarrow> addr \<Rightarrow> nat \<Rightarrow> addr option \<Rightarrow> world \<Rightarrow> fault + world" where
  "fuse_session_process sp mem len ch w =
     (case sessions w sp of
        None \<Rightarrow> Inl Invalid_Access
      | Some s \<Rightarrow>
          (case op_process (se_op s) of
             None \<Rightarrow> Inl Invalid_Access
           | Some f \<Rightarrow> Inr (emit (Call_process f (se_data s) mem len ch) w)))"

definition fuse_session_process_buf ::
  "addr \<Rightarrow> fuse_buf \<Rightarrow> addr option \<Rightarrow> world \<Rightarrow> fault + world" where
  "fuse_session_process_buf sp buf ch w =
     (case sessions w sp of
        None \<Rightarrow> Inl Invalid_Access
      | Some s \<Rightarrow>
          (case se_process_buf s of
             Some f \<Rightarrow> Inr (emit (Call_process_buf f (se_data s) buf ch) w)
           | None \<Rightarrow>
               if buf_flags buf AND FUSE_BUF_IS_FD \<noteq> 0 then Inl Assert_Failed
               else (case se_data s of
                       None \<Rightarrow> Inl Invalid_Access
                     | Some a \<Rightarrow> fuse_session_process a (buf_mem buf) (buf_size buf) ch w)))"

text \<open>The descriptor and the disk-volume reference of a channel.\<close>

definition fuse_chan_fd :: "addr \<Rightarrow> world \<Rightarrow> fault + int" where
  "fuse_chan_fd p w = (case chans w p of None \<Rightarrow> Inl Invalid_Access | Some c \<Rightarrow> Inr (ch_fd c))"

definition fuse_chan_clearfd :: "addr \<Rightarrow> world \<Rightarrow> fault + int \<times> world" where
  "fuse_chan_clearfd p w =
     (case chans w p of
        None \<Rightarrow> Inl Invalid_Access
      | Some c \<Rightarrow> Inr (ch_fd c, w\<lparr>chans := (chans w)(p \<mapsto> c\<lparr>ch_fd := - 1\<rparr>)\<rparr>))"

definition fuse_chan_disk :: "addr \<Rightarrow> world \<Rightarrow> fault + addr option \<times> world" where
  "fuse_chan_disk p w =
     (case chans w p of
        None \<Rightarrow> Inl Invalid_Access
      | Some c \<Rightarrow>
          Inr (ch_disk c, (case ch_disk c of None \<Rightarrow> w | Some d \<Rightarrow> CFRetain d w)))"

definition fuse_chan_set_disk :: "addr \<Rightarrow> addr option \<Rightarrow> world \<Rightarrow> fault + world" where
  "fuse_chan_set_disk p disk w =
     (let w1 = (case disk of None \<Rightarrow> w | Some d \<Rightarrow> CFRetain d w) in
      case chans w1 p of
        None \<Rightarrow> Inl Invalid_Access
      | Some c \<Rightarrow>
          (let old = ch_disk c;
               w2 = w1\<lparr>chans := (chans w1)(p \<mapsto> c\<lparr>ch_disk := disk\<rparr>)\<rparr>
           in Inr (case old of None \<Rightarrow> w2 | Some d \<Rightarrow> CFRelease d w2)))"

definition fuse_chan_cleardisk :: "addr \<Rightarrow> world \<Rightarrow> fault + world" where
  "fuse_chan_cleardisk p w = fuse_chan_set_disk p None w"

text \<open>
  \<open>fuse_chan_destroy\<close>: unbind the channel from its session, call the \<open>destroy\<close>
  operation of the channel if the table has one, and drop one reference (the branch
  of the source for macOS, the platform the library is built for).
\<close>

definition fuse_chan_destroy :: "addr \<Rightarrow> world \<Rightarrow> fault + world" where
  "fuse_chan_destroy p w =
     (case fuse_session_remove_chan p w of
        Inl f \<Rightarrow> Inl f
      | Inr w1 \<Rightarrow>
          (case chans w1 p of
             None \<Rightarrow> Inl Invalid_Access
           | Some c \<Rightarrow>
               fuse_chan_release p
                 (case op_chan_destroy (ch_op c) of
                    None \<Rightarrow> w1
                  | Some f \<Rightarrow> emit (Call_chan_destroy f p) w1)))"

section \<open>Unmounting (helper.c)\<close>

text \<open>
  \<open>fuse_unmount_common\<close> on macOS, where the mount point argument is ignored: the
  channel, when there is one, is asked for its disk-volume reference (which comes
  retained), \<open>fuse_kern_unmount\<close> is called with the reference and the descriptor,
  and then either the reference is released or, without one, the channel is destroyed.
  \<open>fuse_kern_unmount\<close> is the platform's (mount\_darwin.c) and is an event here.
\<close>

definition fuse_unmount_common :: "string option \<Rightarrow> addr option \<Rightarrow> world \<Rightarrow> fault + world" where
  "fuse_unmount_common mountpoint ch w =
     (case ch of
        None \<Rightarrow> Inr w
      | Some p \<Rightarrow>
          (case fuse_chan_disk p w of
             Inl f \<Rightarrow> Inl f
           | Inr (disk, w1) \<Rightarrow>
               (case fuse_chan_fd p w1 of
                  Inl f \<Rightarrow> Inl f
                | Inr fd \<Rightarrow>
                    (let w2 = emit (Kern_unmount disk fd) w1 in
                     case disk of
                       Some d \<Rightarrow> Inr (CFRelease d w2)
                     | None \<Rightarrow> fuse_chan_destroy p w2))))"

definition fuse_unmount :: "string option \<Rightarrow> addr option \<Rightarrow> world \<Rightarrow> fault + world" where
  "fuse_unmount mountpoint ch w = fuse_unmount_common mountpoint ch w"

text \<open>A history of a channel's disk-volume slot: successive \<open>fuse_chan_set_disk\<close> calls.\<close>

fun set_disks :: "addr \<Rightarrow> addr option list \<Rightarrow> world \<Rightarrow> fault + world" where
  "set_disks p [] w = Inr w"
| "set_disks p (d # ds) w =
     (case fuse_chan_set_disk p d w of Inl f \<Rightarrow> Inl f | Inr w' \<Rightarrow> set_disks p ds w')"

text \<open>
  A session with a raw-bytes \<open>process\<close> operation only, whose data pointer is the
  address \<open>20\<close> of the application's own object (no session lives there); a state
  with this session at address \<open>10\<close> and the unbound channel of \<open>world1\<close>; and a
  buffer of sixteen bytes in memory.
\<close>

definition session0 :: fuse_session where
  "session0 =
     \<lparr>se_op = \<lparr>op_process = Some 5, op_exit = None, op_exited = None, op_destroy = None\<rparr>,
      se_receive_buf = None, se_process_buf = None, se_data = Some 20, se_exited = 0,
      se_ch = None\<rparr>"

definition world2 :: world where
  "world2 = world1\<lparr>sessions := [10 \<mapsto> session0]\<rparr>"

definition buf0 :: fuse_buf where
  "buf0 = \<lparr>buf_size = 16, buf_flags = 0, buf_mem = 4000, buf_fd = 0\<rparr>"

text \<open>The state \<open>world1\<close> after the disk-volume reference \<open>50\<close> was attached to its channel.\<close>

definition world3 :: world where
  "world3 = (case fuse_chan_set_disk 7 (Some 50) world1 of Inr w \<Rightarrow> w | Inl f \<Rightarrow> world1)"

section \<open>Signal handling (fuse\_signals.c)\<close>

text \<open>
  The file keeps the registered session in the static \<open>fuse_instance\<close> and, on macOS,
  one dispatch source per unmount signal in the static array \<open>fuse_unmount_sources\<close>.
  The process's signal dispositions are part of the state: \<open>sigaction\<close> reads and
  writes them, and fails (\<open>-1\<close>) for a number that is no signal (outside the
  domain); a write also fails for \<open>SIGKILL\<close> and \<open>SIGSTOP\<close>. \<open>perror\<close> is an
  output on \<open>stderr\<close> of its argument (the text of \<open>errno\<close> that follows is the
  platform's). The signal numbers are those of Darwin's signal.h.
\<close>

datatype sighandler = SIG_DFL | SIG_IGN | Exit_handler

datatype platform = MacOS | Other_platform

definition SIGHUP :: int where
  "SIGHUP = 1"

definition SIGINT :: int where
  "SIGINT = 2"

definition SIGKILL :: int where
  "SIGKILL = 9"

definition SIGPIPE :: int where
  "SIGPIPE = 13"

definition SIGTERM :: int where
  "SIGTERM = 15"

definition SIGSTOP :: int where
  "SIGSTOP = 17"

record sig_state =
  fuse_instance :: "addr option"
  fuse_unmount_sources :: "nat \<Rightarrow> addr option"
  dispositions :: "int \<rightharpoonup> sighandler"
  sig_log :: "event list"

definition sig_emit :: "event \<Rightarrow> sig_state \<Rightarrow> sig_state" where
  "sig_emit e st = st\<lparr>sig_log := sig_log st @ [e]\<rparr>"

definition fuse_unmount_signals :: "int list" where
  "fuse_unmount_signals = [SIGHUP, SIGINT, SIGTERM]"

definition fuse_unmount_signals_count :: nat where
  "fuse_unmount_signals_count = length fuse_unmount_signals"

definition sigaction_get :: "int \<Rightarrow> sig_state \<Rightarrow> sighandler option" where
  "sigaction_get sig st = dispositions st sig"

definition sigaction_set :: "int \<Rightarrow> sighandler \<Rightarrow> sig_state \<Rightarrow> sig_state option" where
  "sigaction_set sig h st =
     (if sig \<in> dom (dispositions st) \<and> sig \<noteq> SIGKILL \<and> sig \<noteq> SIGSTOP
      then Some (st\<lparr>dispositions := (dispositions st)(sig \<mapsto> h)\<rparr>) else None)"

definition set_one_signal_handler ::
  "int \<Rightarrow> sighandler \<Rightarrow> bool \<Rightarrow> sig_state \<Rightarrow> int \<times> sig_state" where
  "set_one_signal_handler sig handler remove st =
     (case sigaction_get sig st of
        None \<Rightarrow> (- 1, sig_emit (Stderr ''fuse: cannot get old signal handler'') st)
      | Some old \<Rightarrow>
          if old = (if remove then handler else SIG_DFL) then
            (case sigaction_set sig (if remove then SIG_DFL else handler) st of
               None \<Rightarrow> (- 1, sig_emit (Stderr ''fuse: cannot set signal handler'') st)
             | Some st' \<Rightarrow> (0, st'))
          else (0, st))"

text \<open>
  \<open>register_signal_source\<close>: \<open>dispatch_source_create\<close> is the platform's and may
  fail; \<open>create\<close> gives its result for a signal. A source that was created gets its
  handler and is resumed.
\<close>

definition register_signal_source ::
  "(int \<Rightarrow> addr option) \<Rightarrow> int \<Rightarrow> sig_state \<Rightarrow> addr option \<times> sig_state" where
  "register_signal_source create sig st =
     (case create sig of
        None \<Rightarrow>
          (None, sig_emit (Stderr_d (''fuse: failed to create source for signal %d'' @ [CHR 0x0A]) sig) st)
      | Some src \<Rightarrow> (Some src, sig_emit (Dispatch_resume src sig) st))"

text \<open>
  \<open>fuse_set_signal_handlers\<close>. The \<open>for\<close> loop of the macOS branch runs over the
  indices of \<open>fuse_unmount_signals\<close>; \<open>set_sources\<close> is the loop, on the indices
  still to do.
\<close>

fun set_sources :: "(int \<Rightarrow> addr option) \<Rightarrow> nat list \<Rightarrow> sig_state \<Rightarrow> int \<times> sig_state" where
  "set_sources create [] st = (0, st)"
| "set_sources create (i # is) st =
     (let signal = fuse_unmount_signals ! i in
      case set_one_signal_handler signal SIG_IGN False st of
        (r, st1) \<Rightarrow>
          if r = - 1 then (- 1, st1)
          else if fuse_unmount_sources st1 i \<noteq> None then
            (- 1, sig_emit (Stderr ''fuse: cannot register signal source'') st1)
          else
            (case register_signal_source create signal st1 of
               (src, st2) \<Rightarrow>
                 set_sources create is
                   (st2\<lparr>fuse_unmount_sources := (fuse_unmount_sources st2)(i := src)\<rparr>)))"

definition fuse_set_signal_handlers ::
  "platform \<Rightarrow> (int \<Rightarrow> addr option) \<Rightarrow> addr option \<Rightarrow> sig_state \<Rightarrow> int \<times> sig_state" where
  "fuse_set_signal_handlers pf create se st =
     (case pf of
        MacOS \<Rightarrow>
          (case set_sources create [0..<fuse_unmount_signals_count] st of
             (r, st1) \<Rightarrow>
               if r = - 1 then (- 1, st1)
               else (case set_one_signal_handler SIGPIPE SIG_IGN False st1 of
                       (r2, st2) \<Rightarrow>
                         if r2 = - 1 then (- 1, st2)
                         else (0, st2\<lparr>fuse_instance := se\<rparr>)))
      | Other_platform \<Rightarrow>
          (case set_one_signal_handler SIGHUP Exit_handler False st of
             (r1, st1) \<Rightarrow>
               if r1 = - 1 then (- 1, st1)
               else (case set_one_signal_handler SIGINT Exit_handler False st1 of
                 (r2, st2) \<Rightarrow>
                   if r2 = - 1 then (- 1, st2)
                   else (case set_one_signal_handler SIGTERM Exit_handler False st2 of
                     (r3, st3) \<Rightarrow>
                       if r3 = - 1 then (- 1, st3)
                       else (case set_one_signal_handler SIGPIPE SIG_IGN False st3 of
                         (r4, st4) \<Rightarrow>
                           if r4 = - 1 then (- 1, st4)
                           else (0, st4\<lparr>fuse_instance := se\<rparr>))))))"

text \<open>\<open>fuse_remove_signal_handlers\<close>; the results of \<open>set_one_signal_handler\<close> are dropped.\<close>

fun remove_sources :: "nat list \<Rightarrow> sig_state \<Rightarrow> sig_state" where
  "remove_sources [] st = st"
| "remove_sources (i # is) st =
     (let st1 = snd (set_one_signal_handler (fuse_unmount_signals ! i) SIG_IGN True st) in
      remove_sources is
        (case fuse_unmount_sources st1 i of
           None \<Rightarrow> st1
         | Some src \<Rightarrow>
             (sig_emit (Dispatch_release src) st1)
               \<lparr>fuse_unmount_sources := (fuse_unmount_sources st1)(i := None)\<rparr>))"

definition fuse_remove_signal_handlers :: "platform \<Rightarrow> addr option \<Rightarrow> sig_state \<Rightarrow> sig_state" where
  "fuse_remove_signal_handlers pf se st =
     (let st0 = (if fuse_instance st \<noteq> se
                 then sig_emit (Stderr (''fuse: fuse_remove_signal_handlers: unknown session'' @ [CHR 0x0A])) st
                 else st\<lparr>fuse_instance := None\<rparr>)
      in case pf of
           MacOS \<Rightarrow>
             snd (set_one_signal_handler SIGPIPE SIG_IGN True
                    (remove_sources [0..<fuse_unmount_signals_count] st0))
         | Other_platform \<Rightarrow>
             snd (set_one_signal_handler SIGPIPE SIG_IGN True
               (snd (set_one_signal_handler SIGTERM Exit_handler True
                 (snd (set_one_signal_handler SIGINT Exit_handler True
                   (snd (set_one_signal_handler SIGHUP Exit_handler True st0))))))))"

text \<open>
  The state of a process that has registered nothing: no session, no source, and the
  default disposition for the four signals the file handles.
\<close>

definition sig_state0 :: sig_state where
  "sig_state0 =
     \<lparr>fuse_instance = None, fuse_unmount_sources = (\<lambda>_. None),
      dispositions = [SIGHUP \<mapsto> SIG_DFL, SIGINT \<mapsto> SIG_DFL, SIGTERM \<mapsto> SIG_DFL,
                      SIGPIPE \<mapsto> SIG_DFL],
      sig_log = []\<rparr>"

text \<open>
  For concrete runs: a platform on which every \<open>dispatch_source_create\<close> succeeds,
  the state after session \<open>10\<close> registered on macOS in a fresh process, and the state
  after session \<open>a\<close> registered on the other platform in a fresh process.
\<close>

definition create_all :: "int \<Rightarrow> addr option" where
  "create_all sig = Some (nat sig + 100)"

definition sig_state_A :: sig_state where
  "sig_state_A = snd (fuse_set_signal_handlers MacOS create_all (Some 10) sig_state0)"

definition registered_other :: "addr \<Rightarrow> sig_state" where
  "registered_other a =
     sig_state0\<lparr>fuse_instance := Some a,
       dispositions := [SIGHUP \<mapsto> Exit_handler, SIGINT \<mapsto> Exit_handler,
                        SIGTERM \<mapsto> Exit_handler, SIGPIPE \<mapsto> SIG_IGN]\<rparr>"

section \<open>The exit flag of a session (fuse\_session.c)\<close>


definition fuse_session_reset :: "addr \<Rightarrow> world \<Rightarrow> fault + world" where
  "fuse_session_reset sp w =
     (case sessions w sp of
        None \<Rightarrow> Inl Invalid_Access
      | Some s \<Rightarrow>
          Inr ((case op_exit (se_op s) of
                  None \<Rightarrow> w
                | Some f \<Rightarrow> emit (Call_exit f (se_data s) 0) w)
                 \<lparr>sessions := (sessions w)(sp \<mapsto> s\<lparr>se_exited := 0\<rparr>)\<rparr>))"


definition fuse_chan_bufsize :: "addr \<Rightarrow> world \<Rightarrow> fault + nat" where
  "fuse_chan_bufsize p w =
     (case chans w p of None \<Rightarrow> Inl Invalid_Access | Some c \<Rightarrow> Inr (ch_bufsize c))"

section \<open>The dispatch loop (fuse\_loop\_dispatch.c)\<close>

text \<open>
  \<open>fuse_session_loop_dispatch\<close> reads requests on one thread and hands each to a
  dispatch group. What the loop sees of its surroundings in one pass is a \<open>turn\<close>:
  either \<open>fuse_session_exited\<close> answered non-zero (\<open>Exit_seen\<close>; other threads set the
  flag), or it answered zero and \<open>fuse_session_receive_buf\<close> returned a result,
  leaving a channel in \<open>tmpch\<close>, and \<open>malloc\<close> for the request's own buffer would
  return the given address or fail (\<open>Read res tmpch m\<close>). \<open>loop_pass\<close> is one pass:
  the test of the \<open>while\<close> and, if it holds, the body; it says whether the loop goes
  on, and gives the new \<open>res\<close> and state. The loop runs on a list of turns; with the
  list used up the loop is still running and the result is \<open>None\<close>.
  An accepted request is submitted with \<open>dispatch_group_async\<close>, an event that carries
  the group, the queue and the arguments of the block's \<open>fuse_session_process_buf\<close>.
\<close>

datatype turn = Exit_seen | Read int "addr option" "addr option"

definition loop_pass :: "addr \<Rightarrow> addr \<Rightarrow> turn \<Rightarrow> int \<Rightarrow> world \<Rightarrow> bool \<times> int \<times> world" where
  "loop_pass grp queue t res w =
     (case t of
        Exit_seen \<Rightarrow> (False, res, w)
      | Read r tmpch m \<Rightarrow>
          if r = - EINTR then (True, r, w)
          else if r \<le> 0 then (False, r, w)
          else (case m of
                  None \<Rightarrow>
                    (False, - 1,
                     emit (Stderr (''fuse: failed to allocate process buffer'' @ [CHR 0x0A])) w)
                | Some process_buf \<Rightarrow>
                    (True, r,
                     emit (Dispatch_group_async grp queue
                             \<lparr>buf_size = nat r, buf_flags = 0, buf_mem = process_buf, buf_fd = 0\<rparr>
                             tmpch) w)))"

fun dispatch_loop :: "addr \<Rightarrow> addr \<Rightarrow> turn list \<Rightarrow> int \<Rightarrow> world \<Rightarrow> (int \<times> world) option" where
  "dispatch_loop grp queue [] res w = None"
| "dispatch_loop grp queue (t # ts) res w =
     (case loop_pass grp queue t res w of
        (go, r, w') \<Rightarrow> if go then dispatch_loop grp queue ts r w' else Some (r, w'))"

text \<open>
  The surroundings of one call: what \<open>malloc\<close> returns for the read buffer, what
  \<open>dispatch_queue_create\<close> and \<open>dispatch_group_create\<close> return, and what
  \<open>dispatch_group_wait\<close> returns after the loop.
\<close>

record loop_env =
  env_buf :: "addr option"
  env_queue :: "addr option"
  env_group :: "addr option"
  env_wait :: int

text \<open>The label \<open>out\<close>: release what was acquired, reset the session, and return.\<close>

definition loop_out ::
  "addr \<Rightarrow> loop_env \<Rightarrow> addr option \<Rightarrow> addr option \<Rightarrow> int \<Rightarrow> world \<Rightarrow> fault + int \<times> world" where
  "loop_out sp env queue grp res w =
     (let w1 = emit (Free_mem (env_buf env)) w;
          w2 = (case grp of None \<Rightarrow> w1 | Some g \<Rightarrow> emit (Dispatch_release g) w1);
          w3 = (case queue of None \<Rightarrow> w2 | Some q \<Rightarrow> emit (Dispatch_release q) w2)
      in case fuse_session_reset sp w3 of
           Inl f \<Rightarrow> Inl f
         | Inr w4 \<Rightarrow> Inr (if res < 0 then - 1 else 0, w4))"

definition fuse_session_loop_dispatch ::
  "addr \<Rightarrow> loop_env \<Rightarrow> turn list \<Rightarrow> world \<Rightarrow> (fault + int \<times> world) option" where
  "fuse_session_loop_dispatch sp env ts w =
     (case fuse_session_next_chan sp None w of
        Inl f \<Rightarrow> Some (Inl f)
      | Inr None \<Rightarrow> Some (Inl Invalid_Access)
      | Inr (Some ch) \<Rightarrow>
          (case fuse_chan_bufsize ch w of
             Inl f \<Rightarrow> Some (Inl f)
           | Inr bufsize \<Rightarrow>
               (case env_buf env of
                  None \<Rightarrow>
                    Some (loop_out sp env None None (- 1)
                      (emit (Stderr (''fuse: failed to allocate read buffer'' @ [CHR 0x0A])) w))
                | Some buf \<Rightarrow>
                    (case env_queue env of
                       None \<Rightarrow>
                         Some (loop_out sp env None None (- 1)
                           (emit (Stderr (''fuse: failed to create session queue'' @ [CHR 0x0A])) w))
                     | Some queue \<Rightarrow>
                         (case env_group env of
                            None \<Rightarrow>
                              Some (loop_out sp env (Some queue) None (- 1)
                                (emit (Stderr (''fuse: failed to create session group'' @ [CHR 0x0A])) w))
                          | Some grp \<Rightarrow>
                              (case dispatch_loop grp queue ts 0 w of
                                 None \<Rightarrow> None
                               | Some (res, w1) \<Rightarrow>
                                   if env_wait env \<noteq> 0 then
                                     Some (loop_out sp env (Some queue) (Some grp) (- 1)
                                       (emit (Stderr (''fuse: dispatch_group_wait timed out'' @ [CHR 0x0A])) w1))
                                   else Some (loop_out sp env (Some queue) (Some grp) res w1)))))))"

text \<open>
  A session bound to a channel, with neither an \<open>exit\<close> nor an \<open>exited\<close> operation,
  and surroundings in which every allocation succeeds and the wait returns \<open>0\<close>.
\<close>

definition world4 :: world where
  "world4 = (case fuse_session_add_chan 10 7 world2 of Inr w \<Rightarrow> w | Inl f \<Rightarrow> world2)"

definition env_ok :: loop_env where
  "env_ok = \<lparr>env_buf = Some 5000, env_queue = Some 60, env_group = Some 61, env_wait = 0\<rparr>"

section \<open>The worker pool (fuse\_mt.c)\<close>

text \<open>
  \<open>do_work\<close> is the body every worker thread runs: read a command, end the process
  with \<open>exit(1)\<close> if there is none, hand the command to the processor, and again. The
  function is given the results of the reads to come (\<open>None\<close> for a \<open>NULL\<close> command),
  and the calls of the processor made so far, each with the thread that made it.
  With the reads used up the thread waits in \<open>__fuse_read_cmd\<close>. The \<open>return NULL\<close>
  behind the loop is never reached; \<open>Returned\<close> stands for it.
\<close>

type_synonym cmd = addr

datatype outcome = Returned | Waiting "(nat \<times> cmd) list" | Process_exit int "(nat \<times> cmd) list"

fun do_work :: "nat \<Rightarrow> cmd option list \<Rightarrow> (nat \<times> cmd) list \<Rightarrow> outcome" where
  "do_work t [] procd = Waiting procd"
| "do_work t (None # rs) procd = Process_exit 1 procd"
| "do_work t (Some c # rs) procd = do_work t rs (procd @ [(t, c)])"

text \<open>
  The threads of \<open>__fuse_loop_mt\<close> together. The process is running or has exited
  with a status; the reads to come are shared by all threads; \<open>mt_started\<close> counts
  the \<open>start_thread\<close> calls done. The calling thread is thread \<open>0\<close>; it creates
  the threads \<open>1\<close> to \<open>FUSE_NUM_WORKERS - 1\<close> and then runs \<open>do_work\<close> itself.
  The worker record all threads share is allocated before that; the source does not
  test the allocation, and the states here begin with the record in place.
\<close>

definition FUSE_NUM_WORKERS :: nat where
  "FUSE_NUM_WORKERS = 5"

datatype status = Running | Exited int

record mt_state =
  mt_status :: status
  mt_reads :: "cmd option list"
  mt_procs :: "(nat \<times> cmd) list"
  mt_started :: nat
  mt_log :: "event list"

definition mt_init :: "cmd option list \<Rightarrow> mt_state" where
  "mt_init reads =
     \<lparr>mt_status = Running, mt_reads = reads, mt_procs = [], mt_started = 0, mt_log = []\<rparr>"

text \<open>One pass of thread \<open>t\<close> through the body of the loop in \<open>do_work\<close>.\<close>

definition do_work_pass :: "nat \<Rightarrow> mt_state \<Rightarrow> mt_state" where
  "do_work_pass t s =
     (case mt_reads s of
        [] \<Rightarrow> s
      | None # rs \<Rightarrow> s\<lparr>mt_status := Exited 1, mt_reads := rs\<rparr>
      | Some c # rs \<Rightarrow> s\<lparr>mt_reads := rs, mt_procs := mt_procs s @ [(t, c)]\<rparr>)"

text \<open>
  \<open>start_thread\<close>, given what \<open>pthread_create\<close> returns: a failure is reported and
  ends the process with \<open>exit(1)\<close>.
\<close>

definition start_thread :: "int \<Rightarrow> mt_state \<Rightarrow> mt_state" where
  "start_thread res s =
     (if res \<noteq> 0 then
        s\<lparr>mt_status := Exited 1,
          mt_log := mt_log s @ [Stderr_s (''Error creating thread: %s'' @ [CHR 0x0A]) res]\<rparr>
      else s\<lparr>mt_started := mt_started s + 1\<rparr>)"

text \<open>
  What can happen next in the process: the calling thread creates its next thread
  (while it has some left to create), or a thread that exists passes once through
  its loop; the calling thread does so only after its \<open>for\<close> loop. Nothing happens
  in a process that has exited. A schedule is a list of such moves, in any order.
\<close>

datatype move = Create int | Pass nat

definition thread_runs :: "nat \<Rightarrow> mt_state \<Rightarrow> bool" where
  "thread_runs t s \<longleftrightarrow>
     (if t = 0 then mt_started s = FUSE_NUM_WORKERS - 1 else t \<le> mt_started s)"

definition mt_step :: "move \<Rightarrow> mt_state \<Rightarrow> mt_state" where
  "mt_step m s =
     (if mt_status s \<noteq> Running then s
      else (case m of
              Create res \<Rightarrow> if mt_started s < FUSE_NUM_WORKERS - 1 then start_thread res s else s
            | Pass t \<Rightarrow> if thread_runs t s then do_work_pass t s else s))"

fun mt_run :: "move list \<Rightarrow> mt_state \<Rightarrow> mt_state" where
  "mt_run [] s = s"
| "mt_run (m # ms) s = mt_run ms (mt_step m s)"

text \<open>The commands read before the first failed read.\<close>

fun cmds_before_failure :: "cmd option list \<Rightarrow> cmd list" where
  "cmds_before_failure [] = []"
| "cmds_before_failure (None # rs) = []"
| "cmds_before_failure (Some c # rs) = c # cmds_before_failure rs"

text \<open>
  For concrete runs: the state in which the loop of \<open>world4\<close> ends, a schedule of
  the worker pool, and the pool with all its threads created and a failed read next.
\<close>

definition loop_end :: world where
  "loop_end = world4\<lparr>log := [Free_mem (Some 5000), Dispatch_release 61, Dispatch_release 60]\<rparr>"

definition pool_schedule :: "move list" where
  "pool_schedule = [Create 0, Pass 1, Create 0, Create 0, Create 0, Pass 3, Pass 0]"

definition pool_ready :: mt_state where
  "pool_ready = mt_run [Create 0, Create 0, Create 0, Create 0] (mt_init [None, Some 9])"

text \<open>What a thread running \<open>do_work\<close> alone has come to, read off the state of the pool.\<close>

definition outcome_of :: "mt_state \<Rightarrow> outcome" where
  "outcome_of s =
     (case mt_status s of
        Running \<Rightarrow> Waiting (mt_procs s)
      | Exited n \<Rightarrow> Process_exit n (mt_procs s))"

section \<open>The dispatch loop and its blocks together\<close>


























section \<open>Properties\<close>

subsection \<open>Reference counting of a channel\<close>


lemma calls_Nil [simp]: "calls c [] = 0"
  by (simp add: calls_def)

lemma calls_Cons [simp]: "calls c (d # cs) = (if d = c then 1 else 0) + calls c cs"
  by (simp add: calls_def)

lemma ex_le_Suc:
  "(\<exists>n\<le>Suc k. P n) \<longleftrightarrow> P 0 \<or> (\<exists>m\<le>k. P (Suc m))"
proof
  assume "\<exists>n\<le>Suc k. P n"
  then obtain n where n: "n \<le> Suc k" "P n" by blast
  show "P 0 \<or> (\<exists>m\<le>k. P (Suc m))"
  proof (cases n)
    case 0
    with n show ?thesis by simp
  next
    case (Suc m)
    with n show ?thesis by auto
  qed
next
  assume "P 0 \<or> (\<exists>m\<le>k. P (Suc m))"
  then show "\<exists>n\<le>Suc k. P n" by auto
qed

lemma reach_prefix:
  "reach k cs \<longleftrightarrow> (\<exists>n\<le>length cs. calls Release (take n cs) = k + calls Retain (take n cs))"
proof (induction cs arbitrary: k)
  case Nil
  then show ?case by auto
next
  case (Cons c cs)
  show ?case
  proof (cases c)
    case Retain
    then show ?thesis
      by (simp add: Cons.IH ex_le_Suc [of "length cs"]) (simp add: algebra_simps)
  next
    case Release
    then show ?thesis
      by (simp add: Cons.IH ex_le_Suc [of "length cs"]) (simp add: algebra_simps)
  qed
qed

lemma frees_emit_free [simp]: "frees p (emit (Free_chan p) w) = Suc (frees p w)"
  by (simp add: frees_def emit_def)

lemma rc_run_dead:
  "chans w p = None \<Longrightarrow> fst (rc_run p cs w) = w"
  by (cases cs; cases "hd cs") (auto simp: rc_step_def fuse_chan_retain_def fuse_chan_release_def)

lemma rc_run_live:
  assumes "chans w p = Some c" "1 \<le> ch_retain_count c"
    and "ch_retain_count c + calls Retain cs \<le> INT_MAX"
  shows "frees p (fst (rc_run p cs w)) = frees p w + (if reach (ch_retain_count c) cs then 1 else 0)
       \<and> (chans (fst (rc_run p cs w)) p = None \<longleftrightarrow> reach (ch_retain_count c) cs)"
  using assms
proof (induction cs arbitrary: w c)
  case Nil
  then show ?case by auto
next
  case (Cons a cs)
  show ?case
  proof (cases a)
    case Retain
    let ?c' = "c\<lparr>ch_retain_count := ch_retain_count c + 1\<rparr>"
    let ?w' = "w\<lparr>chans := (chans w)(p \<mapsto> ?c')\<rparr>"
    from Cons.prems Retain have ne: "ch_retain_count c \<noteq> INT_MAX"
      by (auto simp: calls_def)
    then have step: "rc_step p a w = Inr ?w'"
      using Cons.prems Retain by (simp add: rc_step_def fuse_chan_retain_def)
    have "frees p (fst (rc_run p cs ?w')) = frees p ?w' + (if reach (ch_retain_count ?c') cs then 1 else 0)
       \<and> (chans (fst (rc_run p cs ?w')) p = None \<longleftrightarrow> reach (ch_retain_count ?c') cs)"
      using Cons.prems Retain by (intro Cons.IH) auto
    then show ?thesis
      using step Retain Cons.prems by (auto simp: frees_def)
  next
    case Release
    show ?thesis
    proof (cases "ch_retain_count c = 1")
      case True
      let ?w' = "emit (Free_chan p) ((case ch_disk c of None \<Rightarrow> w | Some d \<Rightarrow> CFRelease d w)\<lparr>chans := (chans w)(p := None)\<rparr>)"
      have step: "rc_step p a w = Inr ?w'"
        using Cons.prems Release True by (simp add: rc_step_def fuse_chan_release_def INT_MIN_def)
      have dead: "chans ?w' p = None" by (simp add: emit_def)
      have fr: "frees p ?w' = Suc (frees p w)"
        by (simp add: frees_def emit_def CFRelease_def split: option.splits)
      have r: "reach 0 cs" by (cases cs) auto
      show ?thesis
        using step rc_run_dead[OF dead, of cs] dead fr True Release r by simp
    next
      case False
      let ?c' = "c\<lparr>ch_retain_count := ch_retain_count c - 1\<rparr>"
      let ?w' = "w\<lparr>chans := (chans w)(p \<mapsto> ?c')\<rparr>"
      have step: "rc_step p a w = Inr ?w'"
        using Cons.prems Release False by (simp add: rc_step_def fuse_chan_release_def INT_MIN_def)
      have "frees p (fst (rc_run p cs ?w')) = frees p ?w' + (if reach (ch_retain_count ?c') cs then 1 else 0)
       \<and> (chans (fst (rc_run p cs ?w')) p = None \<longleftrightarrow> reach (ch_retain_count ?c') cs)"
        using Cons.prems Release False by (intro Cons.IH) auto
      then show ?thesis
        using step Release Cons.prems False by (auto simp: frees_def)
    qed
  qed
qed


lemma ex_less_Suc:
  "(\<exists>n<Suc k. P n) \<longleftrightarrow> P 0 \<or> (\<exists>m<k. P (Suc m))"
proof
  assume "\<exists>n<Suc k. P n"
  then obtain n where n: "n < Suc k" "P n" by blast
  show "P 0 \<or> (\<exists>m<k. P (Suc m))"
  proof (cases n)
    case 0
    with n show ?thesis by simp
  next
    case (Suc m)
    with n show ?thesis by auto
  qed
next
  assume "P 0 \<or> (\<exists>m<k. P (Suc m))"
  then show "\<exists>n<Suc k. P n" by auto
qed

lemma passed_prefix:
  "passed k cs \<longleftrightarrow> (\<exists>n<length cs. calls Release (take n cs) = k + calls Retain (take n cs))"
proof (induction cs arbitrary: k)
  case Nil
  then show ?case by auto
next
  case (Cons c cs)
  show ?case
  proof (cases c)
    case Retain
    then show ?thesis
      by (simp add: Cons.IH ex_less_Suc [of "length cs"]) (simp add: algebra_simps)
  next
    case Release
    then show ?thesis
      by (simp add: Cons.IH ex_less_Suc [of "length cs"]) (simp add: algebra_simps)
  qed
qed

lemma rc_run_dead_fault:
  "chans w p = None \<Longrightarrow> snd (rc_run p cs w) = (if cs = [] then None else Some Invalid_Access)"
  by (cases cs; cases "hd cs") (auto simp: rc_step_def fuse_chan_retain_def fuse_chan_release_def)

lemma passed_0: "passed 0 cs \<longleftrightarrow> cs \<noteq> []"
  by (cases cs) auto

lemma rc_run_live_fault:
  assumes "chans w p = Some c" "1 \<le> ch_retain_count c"
    and "ch_retain_count c + calls Retain cs \<le> INT_MAX"
  shows "snd (rc_run p cs w) = (if passed (ch_retain_count c) cs then Some Invalid_Access else None)"
  using assms
proof (induction cs arbitrary: w c)
  case Nil
  then show ?case by auto
next
  case (Cons a cs)
  show ?case
  proof (cases a)
    case Retain
    let ?c' = "c\<lparr>ch_retain_count := ch_retain_count c + 1\<rparr>"
    let ?w' = "w\<lparr>chans := (chans w)(p \<mapsto> ?c')\<rparr>"
    from Cons.prems Retain have ne: "ch_retain_count c \<noteq> INT_MAX"
      by (auto simp: calls_def)
    then have step: "rc_step p a w = Inr ?w'"
      using Cons.prems Retain by (simp add: rc_step_def fuse_chan_retain_def)
    have "snd (rc_run p cs ?w') = (if passed (ch_retain_count ?c') cs then Some Invalid_Access else None)"
      using Cons.prems Retain by (intro Cons.IH) auto
    then show ?thesis
      using step Retain Cons.prems by auto
  next
    case Release
    show ?thesis
    proof (cases "ch_retain_count c = 1")
      case True
      let ?w' = "emit (Free_chan p) ((case ch_disk c of None \<Rightarrow> w | Some d \<Rightarrow> CFRelease d w)\<lparr>chans := (chans w)(p := None)\<rparr>)"
      have step: "rc_step p a w = Inr ?w'"
        using Cons.prems Release True by (simp add: rc_step_def fuse_chan_release_def INT_MIN_def)
      have dead: "chans ?w' p = None" by (simp add: emit_def)
      show ?thesis
        using step rc_run_dead_fault[OF dead, of cs] True Release by (simp add: passed_0)
    next
      case False
      let ?c' = "c\<lparr>ch_retain_count := ch_retain_count c - 1\<rparr>"
      let ?w' = "w\<lparr>chans := (chans w)(p \<mapsto> ?c')\<rparr>"
      have step: "rc_step p a w = Inr ?w'"
        using Cons.prems Release False by (simp add: rc_step_def fuse_chan_release_def INT_MIN_def)
      have "snd (rc_run p cs ?w') = (if passed (ch_retain_count ?c') cs then Some Invalid_Access else None)"
        using Cons.prems Release False by (intro Cons.IH) auto
      then show ?thesis
        using step Release Cons.prems False by auto
    qed
  qed
qed

text \<open>
  Claim C1. A channel is created with a count of one. Over any sequence of \<open>retain\<close>
  and \<open>release\<close> calls on it, the channel is freed exactly when, after some prefix of
  the sequence, the releases equal the retains plus the initial one; it is freed at
  most once (the number of \<open>free\<close> calls grows by one or not at all); and the only
  fault of the run is a call made after the free, on the dead address. The counter is
  an \<open>int\<close>, so the retains of the sequence have to stay below \<open>INT_MAX\<close>.
\<close>

theorem chan_freed_iff_releases_reach_retains:
  assumes "fuse_chan_new_common (Some p) ops fd bufsize dat cmpt w = (r, w0)"
    and "calls Retain cs < INT_MAX"
  shows "frees p (fst (rc_run p cs w0)) =
           frees p w0 + (if \<exists>n\<le>length cs. calls Release (take n cs) = 1 + calls Retain (take n cs)
                         then 1 else 0)
       \<and> (chans (fst (rc_run p cs w0)) p = None \<longleftrightarrow>
            (\<exists>n\<le>length cs. calls Release (take n cs) = 1 + calls Retain (take n cs)))
       \<and> snd (rc_run p cs w0) =
           (if \<exists>n<length cs. calls Release (take n cs) = 1 + calls Retain (take n cs)
            then Some Invalid_Access else None)"
proof -
  let ?c = "\<lparr>ch_retain_count = 1, ch_op = ops, ch_se = None, ch_fd = fd,
                ch_disk = None, ch_bufsize = bufsize, ch_data = dat, ch_compat = cmpt\<rparr>"
  from assms(1) have live: "chans w0 p = Some ?c"
    by (auto simp: fuse_chan_new_common_def)
  have one: "1 \<le> ch_retain_count ?c" by simp
  have bound: "ch_retain_count ?c + calls Retain cs \<le> INT_MAX"
    using assms(2) by simp
  show ?thesis
    using rc_run_live [OF live one bound] rc_run_live_fault [OF live one bound]
    by (simp add: reach_prefix passed_prefix)
qed

theorem chan_freed_iff_releases_reach_retains_witness:
  "fuse_chan_new_common (Some 7) chan_ops0 3 4096 None 0 world0 =
     (Some 7, snd (fuse_chan_new_common (Some 7) chan_ops0 3 4096 None 0 world0))
   \<and> calls Retain [Retain, Release, Release] < INT_MAX
   \<and> frees 7 (fst (rc_run 7 [Retain, Release, Release]
        (snd (fuse_chan_new_common (Some 7) chan_ops0 3 4096 None 0 world0)))) = 1"
proof -
  have a: "fuse_chan_new_common (Some 7) chan_ops0 3 4096 None 0 world0 =
     (Some 7, snd (fuse_chan_new_common (Some 7) chan_ops0 3 4096 None 0 world0))"
    by (simp add: fuse_chan_new_common_def)
  have b: "calls Retain [Retain, Release, Release] < INT_MAX"
    by (simp add: calls_def INT_MAX_def)
  have ex: "\<exists>n\<le>length [Retain, Release, Release].
      calls Release (take n [Retain, Release, Release]) = 1 + calls Retain (take n [Retain, Release, Release])"
    by (rule exI [of _ 3]) (simp add: calls_def)
  have f0: "frees 7 (snd (fuse_chan_new_common (Some 7) chan_ops0 3 4096 None 0 world0)) = 0"
    by (simp add: fuse_chan_new_common_def frees_def world0_def)
  show ?thesis
    using a b chan_freed_iff_releases_reach_retains [OF a b] ex f0 by simp
qed

subsection \<open>Receiving on a channel\<close>

lemma world1_chan:
  "chans world1 7 = Some \<lparr>ch_retain_count = 1, ch_op = chan_ops0, ch_se = None, ch_fd = 3,
     ch_disk = None, ch_bufsize = 4096, ch_data = None, ch_compat = 0\<rparr>"
  by (simp add: world1_def fuse_chan_new_def fuse_chan_new_common_def world0_def)

text \<open>
  Claim C10. On a live channel \<open>fuse_chan_receive\<close> hands on what the receive operation
  returned (\<open>raw\<close>) as follows: a result of zero or more unchanged, \<open>-EINTR\<close> and
  \<open>-EAGAIN\<close> as \<open>0\<close>, every other negative result as \<open>-1\<close>; so the caller never
  sees a value below \<open>-1\<close>.
\<close>

theorem fuse_chan_receive_normalises:
  assumes "chans w p = Some c"
  shows "\<exists>raw r. fuse_chan_recv recv24 recv w p sz = Inr raw
           \<and> fuse_chan_receive recv24 recv w p sz = Inr r
           \<and> (0 \<le> raw \<longrightarrow> r = raw)
           \<and> (raw = - EINTR \<or> raw = - EAGAIN \<longrightarrow> r = 0)
           \<and> (raw < 0 \<and> raw \<noteq> - EINTR \<and> raw \<noteq> - EAGAIN \<longrightarrow> r = - 1)
           \<and> - 1 \<le> r"
  using assms by (auto simp: fuse_chan_receive_def fuse_chan_recv_def EINTR_def EAGAIN_def)

theorem fuse_chan_receive_normalises_witness:
  "chans world1 7 \<noteq> None
   \<and> fuse_chan_recv (\<lambda>f p n. - 1) (\<lambda>f p n. - 5) world1 7 100 = Inr (- 5)
   \<and> fuse_chan_receive (\<lambda>f p n. - 1) (\<lambda>f p n. - 5) world1 7 100 = Inr (- 1)
   \<and> fuse_chan_receive (\<lambda>f p n. - 1) (\<lambda>f p n. - EINTR) world1 7 100 = Inr 0
   \<and> fuse_chan_receive (\<lambda>f p n. - 1) (\<lambda>f p n. - EAGAIN) world1 7 100 = Inr 0
   \<and> fuse_chan_receive (\<lambda>f p n. - 1) (\<lambda>f p n. 42) world1 7 100 = Inr 42"
  using fuse_chan_receive_normalises [OF world1_chan, of "\<lambda>f p n. - 1" "\<lambda>f p n. - 5" 100]
    fuse_chan_receive_normalises [OF world1_chan, of "\<lambda>f p n. - 1" "\<lambda>f p n. - EINTR" 100]
    fuse_chan_receive_normalises [OF world1_chan, of "\<lambda>f p n. - 1" "\<lambda>f p n. - EAGAIN" 100]
    fuse_chan_receive_normalises [OF world1_chan, of "\<lambda>f p n. - 1" "\<lambda>f p n. 42" 100]
  by (simp add: fuse_chan_recv_def world1_chan EINTR_def EAGAIN_def)

lemma world1_eq:
  "world1 =
     \<lparr>chans = [7 \<mapsto> \<lparr>ch_retain_count = 1, ch_op = chan_ops0, ch_se = None, ch_fd = 3,
        ch_disk = None, ch_bufsize = 4096, ch_data = None, ch_compat = 0\<rparr>],
      sessions = Map.empty, cf = (\<lambda>_. 0), log = []\<rparr>"
  by (simp add: world1_def fuse_chan_new_def fuse_chan_new_common_def world0_def)

lemma world2_session: "sessions world2 10 = Some session0"
  by (simp add: world2_def)

lemma world2_chan:
  "chans world2 7 = Some \<lparr>ch_retain_count = 1, ch_op = chan_ops0, ch_se = None, ch_fd = 3,
     ch_disk = None, ch_bufsize = 4096, ch_data = None, ch_compat = 0\<rparr>"
  by (simp add: world2_def world1_chan)

lemma world3_eq:
  "world3 =
     \<lparr>chans = [7 \<mapsto> \<lparr>ch_retain_count = 1, ch_op = chan_ops0, ch_se = None, ch_fd = 3,
        ch_disk = Some 50, ch_bufsize = 4096, ch_data = None, ch_compat = 0\<rparr>],
      sessions = Map.empty, cf = (\<lambda>_. 0)(50 := 1), log = []\<rparr>"
  by (simp add: world3_def world1_eq fuse_chan_set_disk_def CFRetain_def)

subsection \<open>Binding a channel to a session\<close>

text \<open>
  Claim C8. For a session without a channel and a channel without a session,
  \<open>fuse_session_add_chan\<close> succeeds and binds the two to each other, and
  \<open>fuse_session_remove_chan\<close> right after it gives back the very state from before
  the binding: sessions, channels and everything else.
\<close>

theorem add_then_remove_chan_is_identity:
  assumes "sessions w sp = Some s" "se_ch s = None" "chans w cp = Some c" "ch_se c = None"
  shows "\<exists>w1. fuse_session_add_chan sp cp w = Inr w1
            \<and> (\<exists>s1 c1. sessions w1 sp = Some s1 \<and> se_ch s1 = Some cp
                  \<and> chans w1 cp = Some c1 \<and> ch_se c1 = Some sp)
            \<and> fuse_session_remove_chan cp w1 = Inr w"
proof -
  let ?w1 = "w\<lparr>sessions := (sessions w)(sp \<mapsto> s\<lparr>se_ch := Some cp\<rparr>),
               chans := (chans w)(cp \<mapsto> c\<lparr>ch_se := Some sp\<rparr>)\<rparr>"
  have add: "fuse_session_add_chan sp cp w = Inr ?w1"
    using assms by (simp add: fuse_session_add_chan_def)
  have s_back: "s\<lparr>se_ch := None\<rparr> = s" using assms(2) by simp
  have c_back: "c\<lparr>ch_se := None\<rparr> = c" using assms(4) by simp
  have "(sessions w)(sp \<mapsto> s) = sessions w" "(chans w)(cp \<mapsto> c) = chans w"
    using assms(1,3) by (auto simp: fun_upd_idem)
  then have rem: "fuse_session_remove_chan cp ?w1 = Inr w"
    using s_back c_back by (simp add: fuse_session_remove_chan_def)
  show ?thesis using add rem by simp
qed

theorem add_then_remove_chan_is_identity_witness:
  "sessions world2 10 = Some session0 \<and> se_ch session0 = None
   \<and> chans world2 7 \<noteq> None
   \<and> (\<exists>w1. fuse_session_add_chan 10 7 world2 = Inr w1
          \<and> fuse_session_remove_chan 7 w1 = Inr world2)"
proof -
  have unbound: "se_ch session0 = None" by (simp add: session0_def)
  have free: "ch_se \<lparr>ch_retain_count = 1, ch_op = chan_ops0, ch_se = None, ch_fd = 3,
     ch_disk = None, ch_bufsize = 4096, ch_data = None, ch_compat = 0\<rparr> = None" by simp
  show ?thesis
    using add_then_remove_chan_is_identity [OF world2_session unbound world2_chan free]
      world2_session unbound world2_chan
    by auto
qed

subsection \<open>The disk-volume reference of a channel\<close>

text \<open>
  Claim C7. On a live channel and for two different references \<open>a\<close> and \<open>b\<close>:
  after \<open>set_disk a\<close> and \<open>set_disk b\<close>, \<open>get_disk\<close> (\<open>fuse_chan_disk\<close>) returns \<open>b\<close>,
  retained once more for the caller; the second \<open>set_disk\<close> took exactly one from
  the retain count of \<open>a\<close>, and \<open>get_disk\<close> leaves that count alone.
\<close>

theorem set_disk_twice_then_get:
  assumes "chans w p = Some c" "a \<noteq> b"
  shows "\<exists>w1 w2 w3. fuse_chan_set_disk p (Some a) w = Inr w1
           \<and> fuse_chan_set_disk p (Some b) w1 = Inr w2
           \<and> fuse_chan_disk p w2 = Inr (Some b, w3)
           \<and> cf w2 a = cf w1 a - 1
           \<and> cf w3 b = cf w2 b + 1
           \<and> cf w3 a = cf w2 a"
  using assms
  by (auto simp: fuse_chan_set_disk_def fuse_chan_disk_def CFRetain_def CFRelease_def Let_def
      split: option.splits)

theorem set_disk_twice_then_get_witness:
  "chans world1 7 \<noteq> None \<and> (50::nat) \<noteq> 51
   \<and> (\<exists>w1 w2 w3. fuse_chan_set_disk 7 (Some 50) world1 = Inr w1
           \<and> fuse_chan_set_disk 7 (Some 51) w1 = Inr w2
           \<and> fuse_chan_disk 7 w2 = Inr (Some 51, w3)
           \<and> cf w2 50 = cf w1 50 - 1)"
proof -
  have ne: "(50::nat) \<noteq> 51" by simp
  show ?thesis
    using set_disk_twice_then_get [OF world1_chan ne] world1_chan by auto
qed

subsection \<open>Unmounting\<close>

lemma fuse_chan_destroy_count:
  assumes "chans w p = Some c" "fuse_chan_destroy p w = Inr w'"
  shows "chans w' p = None
       \<or> (\<exists>c'. chans w' p = Some c' \<and> ch_retain_count c' = ch_retain_count c - 1)"
  using assms
  by (auto simp: fuse_chan_destroy_def fuse_session_remove_chan_def fuse_chan_release_def
        emit_def CFRelease_def
      split: option.splits if_splits sum.splits)

lemma fuse_chan_destroy_changes:
  assumes "chans w p = Some c" "fuse_chan_destroy p w = Inr w'"
  shows "chans w' p \<noteq> Some c"
  using fuse_chan_destroy_count [OF assms] by auto

text \<open>
  Claim C4, as the code has it. On macOS and for a live channel, \<open>fuse_unmount_common\<close>
  ignores the mount point and calls \<open>fuse_kern_unmount\<close> once, with the disk-volume
  reference the channel holds at that moment and with the channel's descriptor. With
  a reference held, the retain taken for the call is given back (the counts end as
  they began) and the channel is left as it was. With no reference held at that
  moment, the call goes on as \<open>fuse_chan_destroy\<close> on the channel. So, whenever
  unmount returns, the channel is untouched exactly when it held a reference at the
  time of the call: what decides is the slot as it is now, not whether a reference
  was ever attached.
\<close>

theorem unmount_destroys_iff_no_disk_attached_now:
  assumes "chans w p = Some c"
  shows "(\<forall>d. ch_disk c = Some d \<longrightarrow>
            fuse_unmount_common mp (Some p) w = Inr (emit (Kern_unmount (Some d) (ch_fd c)) w))
       \<and> (ch_disk c = None \<longrightarrow>
            fuse_unmount_common mp (Some p) w =
              fuse_chan_destroy p (emit (Kern_unmount None (ch_fd c)) w))
       \<and> (\<forall>w'. fuse_unmount_common mp (Some p) w = Inr w' \<longrightarrow>
            (chans w' p = Some c \<longleftrightarrow> ch_disk c \<noteq> None))"
proof (intro conjI allI impI)
  fix d assume d: "ch_disk c = Some d"
  have "(cf w)(d := cf w d) = cf w" by (rule fun_upd_triv)
  then show "fuse_unmount_common mp (Some p) w = Inr (emit (Kern_unmount (Some d) (ch_fd c)) w)"
    using assms d
    by (simp add: fuse_unmount_common_def fuse_chan_disk_def fuse_chan_fd_def CFRetain_def
        CFRelease_def emit_def)
next
  assume "ch_disk c = None"
  then show "fuse_unmount_common mp (Some p) w =
              fuse_chan_destroy p (emit (Kern_unmount None (ch_fd c)) w)"
    using assms
    by (simp add: fuse_unmount_common_def fuse_chan_disk_def fuse_chan_fd_def)
next
  fix w' assume r: "fuse_unmount_common mp (Some p) w = Inr w'"
  show "chans w' p = Some c \<longleftrightarrow> ch_disk c \<noteq> None"
  proof (cases "ch_disk c")
    case None
    then have "fuse_chan_destroy p (emit (Kern_unmount None (ch_fd c)) w) = Inr w'"
      using r assms by (simp add: fuse_unmount_common_def fuse_chan_disk_def fuse_chan_fd_def)
    moreover have "chans (emit (Kern_unmount None (ch_fd c)) w) p = Some c"
      using assms by (simp add: emit_def)
    ultimately have "chans w' p \<noteq> Some c" by (rule fuse_chan_destroy_changes [rotated])
    then show ?thesis using None by simp
  next
    case (Some d)
    have "(cf w)(d := cf w d) = cf w" by (rule fun_upd_triv)
    then have "fuse_unmount_common mp (Some p) w = Inr (emit (Kern_unmount (Some d) (ch_fd c)) w)"
      using assms Some
      by (simp add: fuse_unmount_common_def fuse_chan_disk_def fuse_chan_fd_def CFRetain_def
        CFRelease_def emit_def)
    then show ?thesis using r Some assms by (auto simp: emit_def)
  qed
qed

text \<open>
  The theorem at two states: \<open>world3\<close>, whose channel holds the reference \<open>50\<close>, where
  unmount passes that reference on and leaves the channel; and \<open>world1\<close>, whose
  channel holds none, where unmount frees the channel (its count was one).
\<close>

theorem unmount_destroys_iff_no_disk_attached_now_witness:
  "chans world3 7 \<noteq> None
   \<and> fuse_unmount_common (Some ''/mnt'') (Some 7) world3 =
       Inr (emit (Kern_unmount (Some 50) 3) world3)
   \<and> chans world1 7 \<noteq> None
   \<and> fuse_unmount_common (Some ''/mnt'') (Some 7) world1 =
       Inr (world1\<lparr>chans := Map.empty, log := [Kern_unmount None 3, Free_chan 7]\<rparr>)"
proof -
  have c3: "chans world3 7 = Some \<lparr>ch_retain_count = 1, ch_op = chan_ops0, ch_se = None,
      ch_fd = 3, ch_disk = Some 50, ch_bufsize = 4096, ch_data = None, ch_compat = 0\<rparr>"
    by (simp add: world3_eq)
  have d1: "fuse_chan_destroy 7 (emit (Kern_unmount None 3) world1) =
       Inr (world1\<lparr>chans := Map.empty, log := [Kern_unmount None 3, Free_chan 7]\<rparr>)"
    by (simp add: world1_eq fuse_chan_destroy_def fuse_session_remove_chan_def
        fuse_chan_release_def emit_def chan_ops0_def INT_MIN_def)
  show ?thesis
    using unmount_destroys_iff_no_disk_attached_now [OF c3, of "Some ''/mnt''"]
      unmount_destroys_iff_no_disk_attached_now [OF world1_chan, of "Some ''/mnt''"]
      c3 world1_chan d1
    by simp
qed

text \<open>
  Against the claim as stated (destroyed if and only if no reference was \<^emph>\<open>ever\<close>
  attached): the channel of \<open>world1\<close> gets the reference \<open>50\<close> attached and then
  cleared again, which leads back to \<open>world1\<close>; unmount then calls
  \<open>fuse_kern_unmount\<close> without a reference and frees the channel, although a
  reference had been attached to it.
\<close>

theorem unmount_after_cleared_disk_counterexample:
  "set_disks 7 [Some 50, None] world1 = Inr world1
   \<and> fuse_unmount_common None (Some 7) world1 =
       Inr (world1\<lparr>chans := Map.empty, log := [Kern_unmount None 3, Free_chan 7]\<rparr>)"
proof -
  have "(\<lambda>_. 0::int)(50 := 0) = (\<lambda>_. 0)" by (rule fun_upd_triv)
  then have a: "set_disks 7 [Some 50, None] world1 = Inr world1"
    by (simp add: world1_eq fuse_chan_set_disk_def CFRetain_def CFRelease_def)
  have b: "fuse_unmount_common None (Some 7) world1 =
       Inr (world1\<lparr>chans := Map.empty, log := [Kern_unmount None 3, Free_chan 7]\<rparr>)"
    by (simp add: world1_eq fuse_unmount_common_def fuse_chan_disk_def fuse_chan_fd_def
        fuse_chan_destroy_def fuse_session_remove_chan_def fuse_chan_release_def emit_def
        chan_ops0_def INT_MIN_def)
  show ?thesis using a b by simp
qed

subsection \<open>Processing a buffer without a \<open>process_buf\<close> operation\<close>

text \<open>
  Claim C2 says that, without a \<open>process_buf\<close> operation, a buffer in memory goes to
  the \<open>process\<close> operation of the same session. The source passes \<open>se->data\<close> where
  \<open>fuse_session_process\<close> expects the session, so the operation table is read from the
  application's data object. In \<open>world2\<close> the session at address \<open>10\<close> has the data
  pointer \<open>20\<close>, where no session lives: \<open>fuse_session_process_buf\<close> ends in an
  invalid access, whereas \<open>fuse_session_process\<close> on the session itself calls
  operation \<open>5\<close> with the data, the buffer's memory and size, and the channel.
\<close>

theorem process_buf_passes_data_as_session:
  "fuse_session_process_buf 10 buf0 (Some 7) world2 = Inl Invalid_Access
   \<and> fuse_session_process 10 (buf_mem buf0) (buf_size buf0) (Some 7) world2 =
       Inr (emit (Call_process 5 (Some 20) 4000 16 (Some 7)) world2)"
  by (simp add: fuse_session_process_buf_def fuse_session_process_def world2_def world1_eq
      session0_def buf0_def FUSE_BUF_IS_FD_def)

subsection \<open>Registering a session for the signals\<close>


lemma set_one_signal_handler_frame:
  assumes "set_one_signal_handler sig h rm st = (r, st')"
  shows "fuse_instance st' = fuse_instance st"
    and "fuse_unmount_sources st' = fuse_unmount_sources st"
    and "sig_log st' = sig_log st \<or> (\<exists>m. r = - 1 \<and> sig_log st' = sig_log st @ [Stderr m])"
    and "r = - 1 \<Longrightarrow> \<exists>m. sig_log st' = sig_log st @ [Stderr m]"
    and "r = 0 \<or> r = - 1"
  using assms
  by (auto simp: set_one_signal_handler_def sigaction_get_def sigaction_set_def sig_emit_def
      split: option.splits if_splits)

lemma register_signal_source_frame:
  assumes "register_signal_source create sig st = (src, st')"
  shows "fuse_instance st' = fuse_instance st"
    and "fuse_unmount_sources st' = fuse_unmount_sources st"
    and "\<exists>e. sig_log st' = sig_log st @ [e]"
    and "src = create sig"
  using assms
  by (auto simp: register_signal_source_def sig_emit_def split: option.splits)

lemma set_sources_instance:
  "set_sources create is st = (r, st') \<Longrightarrow> fuse_instance st' = fuse_instance st"
proof (induction "is" arbitrary: st)
  case Nil
  then show ?case by simp
next
  case (Cons i "is")
  obtain r1 st1 where one: "set_one_signal_handler (fuse_unmount_signals ! i) SIG_IGN False st = (r1, st1)"
    by (cases "set_one_signal_handler (fuse_unmount_signals ! i) SIG_IGN False st")
  obtain src st2 where reg: "register_signal_source create (fuse_unmount_signals ! i) st1 = (src, st2)"
    by (cases "register_signal_source create (fuse_unmount_signals ! i) st1")
  note f1 = set_one_signal_handler_frame(1) [OF one]
  note f2 = register_signal_source_frame(1) [OF reg]
  show ?case
  proof (cases "r1 = - 1 \<or> fuse_unmount_sources st1 i \<noteq> None")
    case True
    then show ?thesis using Cons.prems one f1 by (auto simp: sig_emit_def split: if_splits)
  next
    case False
    then have "set_sources create is (st2\<lparr>fuse_unmount_sources := (fuse_unmount_sources st2)(i := src)\<rparr>) = (r, st')"
      using Cons.prems one reg by simp
    from Cons.IH [OF this] show ?thesis using f1 f2 by simp
  qed
qed

lemma set_sources_occupied:
  assumes "\<exists>j\<in>set is. fuse_unmount_sources st j \<noteq> None"
  shows "\<exists>st' msgs m. set_sources create is st = (- 1, st')
           \<and> sig_log st' = sig_log st @ msgs @ [Stderr m]"
  using assms
proof (induction "is" arbitrary: st)
  case Nil
  then show ?case by simp
next
  case (Cons i "is")
  obtain r1 st1 where one: "set_one_signal_handler (fuse_unmount_signals ! i) SIG_IGN False st = (r1, st1)"
    by (cases "set_one_signal_handler (fuse_unmount_signals ! i) SIG_IGN False st")
  obtain src st2 where reg: "register_signal_source create (fuse_unmount_signals ! i) st1 = (src, st2)"
    by (cases "register_signal_source create (fuse_unmount_signals ! i) st1")
  note f1 = set_one_signal_handler_frame [OF one]
  note f2 = register_signal_source_frame [OF reg]
  show ?case
  proof (cases "r1 = - 1")
    case True
    then obtain m where "sig_log st1 = sig_log st @ [Stderr m]" using f1(4) by blast
    then have "set_sources create (i # is) st = (- 1, st1) \<and> sig_log st1 = sig_log st @ [] @ [Stderr m]"
      using one True by simp
    then show ?thesis by blast
  next
    case ok: False
    then have log1: "sig_log st1 = sig_log st" using f1(3) by auto
    show ?thesis
    proof (cases "fuse_unmount_sources st1 i \<noteq> None")
      case True
      let ?st' = "sig_emit (Stderr ''fuse: cannot register signal source'') st1"
      have "set_sources create (i # is) st = (- 1, ?st')
          \<and> sig_log ?st' = sig_log st @ [] @ [Stderr ''fuse: cannot register signal source'']"
        using one ok True log1 by (simp add: sig_emit_def)
      then show ?thesis by blast
    next
      case False
      let ?st3 = "st2\<lparr>fuse_unmount_sources := (fuse_unmount_sources st2)(i := src)\<rparr>"
      from Cons.prems obtain j where j: "j \<in> set (i # is)" "fuse_unmount_sources st j \<noteq> None"
        by blast
      with False f1(2) have "j \<noteq> i" by auto
      with j have "j \<in> set is" "fuse_unmount_sources ?st3 j \<noteq> None"
        using f1(2) f2(2) by auto
      then have "\<exists>j\<in>set is. fuse_unmount_sources ?st3 j \<noteq> None" by blast
      from Cons.IH [OF this] obtain st' msgs m where
        r: "set_sources create is ?st3 = (- 1, st')" "sig_log st' = sig_log ?st3 @ msgs @ [Stderr m]"
        by blast
      from f2(3) obtain e where e: "sig_log st2 = sig_log st1 @ [e]" by blast
      have "set_sources create (i # is) st = (- 1, st')"
        using one reg ok False r(1) by simp
      moreover have "sig_log st' = sig_log st @ (e # msgs) @ [Stderr m]"
        using r(2) e log1 by simp
      ultimately show ?thesis by blast
    qed
  qed
qed

lemma set_sources_done:
  assumes "set_sources create is st = (0, st')" "distinct is"
  shows "\<forall>i. fuse_unmount_sources st' i =
           (if i \<in> set is then create (fuse_unmount_signals ! i) else fuse_unmount_sources st i)"
  using assms
proof (induction "is" arbitrary: st)
  case Nil
  then show ?case by simp
next
  case (Cons i "is")
  obtain r1 st1 where one: "set_one_signal_handler (fuse_unmount_signals ! i) SIG_IGN False st = (r1, st1)"
    by (cases "set_one_signal_handler (fuse_unmount_signals ! i) SIG_IGN False st")
  obtain src st2 where reg: "register_signal_source create (fuse_unmount_signals ! i) st1 = (src, st2)"
    by (cases "register_signal_source create (fuse_unmount_signals ! i) st1")
  note f1 = set_one_signal_handler_frame [OF one]
  note f2 = register_signal_source_frame [OF reg]
  let ?st3 = "st2\<lparr>fuse_unmount_sources := (fuse_unmount_sources st2)(i := src)\<rparr>"
  have ok: "r1 \<noteq> - 1" "fuse_unmount_sources st1 i = None"
    using Cons.prems(1) one by (auto split: if_splits)
  then have "set_sources create is ?st3 = (0, st')"
    using Cons.prems(1) one reg by simp
  from Cons.IH [OF this] Cons.prems(2)
  have "\<forall>k. fuse_unmount_sources st' k =
           (if k \<in> set is then create (fuse_unmount_signals ! k) else fuse_unmount_sources ?st3 k)"
    by simp
  then show ?case using f1(2) f2(2,4) Cons.prems(2) by auto
qed

lemma set_sources_result:
  "set_sources create is st = (r, st') \<Longrightarrow> r = 0 \<or> r = - 1"
proof (induction "is" arbitrary: st)
  case Nil
  then show ?case by simp
next
  case (Cons i "is")
  obtain r1 st1 where one: "set_one_signal_handler (fuse_unmount_signals ! i) SIG_IGN False st = (r1, st1)"
    by (cases "set_one_signal_handler (fuse_unmount_signals ! i) SIG_IGN False st")
  obtain src st2 where reg: "register_signal_source create (fuse_unmount_signals ! i) st1 = (src, st2)"
    by (cases "register_signal_source create (fuse_unmount_signals ! i) st1")
  show ?case
  proof (cases "r1 = - 1 \<or> fuse_unmount_sources st1 i \<noteq> None")
    case True
    then show ?thesis using Cons.prems one by (auto split: if_splits)
  next
    case False
    then have "set_sources create is (st2\<lparr>fuse_unmount_sources := (fuse_unmount_sources st2)(i := src)\<rparr>) = (r, st')"
      using Cons.prems one reg by simp
    from Cons.IH [OF this] show ?thesis .
  qed
qed

lemma set_signal_handlers_occupied:
  assumes "\<exists>j<fuse_unmount_signals_count. fuse_unmount_sources st j \<noteq> None"
  shows "\<exists>st' msgs m. fuse_set_signal_handlers MacOS create se st = (- 1, st')
           \<and> sig_log st' = sig_log st @ msgs @ [Stderr m]
           \<and> fuse_instance st' = fuse_instance st"
proof -
  from assms have "\<exists>j\<in>set [0..<fuse_unmount_signals_count]. fuse_unmount_sources st j \<noteq> None"
    by auto
  from set_sources_occupied [OF this, of create] obtain st' msgs m where
    r: "set_sources create [0..<fuse_unmount_signals_count] st = (- 1, st')"
       "sig_log st' = sig_log st @ msgs @ [Stderr m]"
    by blast
  have "fuse_instance st' = fuse_instance st" using set_sources_instance [OF r(1)] .
  moreover have "fuse_set_signal_handlers MacOS create se st = (- 1, st')"
    using r(1) by (simp add: fuse_set_signal_handlers_def)
  ultimately show ?thesis using r(2) by blast
qed

lemma sig_nums: "SIGHUP \<noteq> SIGINT" "SIGHUP \<noteq> SIGTERM" "SIGHUP \<noteq> SIGPIPE" "SIGINT \<noteq> SIGTERM" "SIGINT \<noteq> SIGPIPE" 
  "SIGTERM \<noteq> SIGPIPE" "SIGHUP \<noteq> SIGKILL" "SIGINT \<noteq> SIGKILL" "SIGTERM \<noteq> SIGKILL" "SIGPIPE \<noteq> SIGKILL"
  "SIGHUP \<noteq> SIGSTOP" "SIGINT \<noteq> SIGSTOP" "SIGTERM \<noteq> SIGSTOP" "SIGPIPE \<noteq> SIGSTOP"
  by (simp_all add: SIGHUP_def SIGINT_def SIGTERM_def SIGPIPE_def SIGKILL_def SIGSTOP_def)

lemma upt3: "[0..<fuse_unmount_signals_count] = [0, 1, 2]"
  by (simp add: fuse_unmount_signals_count_def fuse_unmount_signals_def upt_rec)

lemma sig_state_A_eq: "fuse_set_signal_handlers MacOS create_all (Some 10) sig_state0 = (0, sig_state_A)"
  unfolding sig_state_A_def
  by (simp add: fuse_set_signal_handlers_def upt3 sig_state0_def set_one_signal_handler_def sigaction_get_def sigaction_set_def
     register_signal_source_def sig_emit_def fuse_unmount_signals_def create_all_def sig_nums)

lemma first_registration_leaves_source:
  assumes "fuse_set_signal_handlers MacOS createA (Some A) st0 = (0, st)"
    and "\<forall>i<fuse_unmount_signals_count. fuse_unmount_sources st0 i = None"
    and "\<exists>i<fuse_unmount_signals_count. createA (fuse_unmount_signals ! i) \<noteq> None"
  shows "fuse_instance st = Some A"
    and "\<exists>j<fuse_unmount_signals_count. fuse_unmount_sources st j \<noteq> None"
proof -
  obtain r1 st1 where s1: "set_sources createA [0..<fuse_unmount_signals_count] st0 = (r1, st1)"
    by (cases "set_sources createA [0..<fuse_unmount_signals_count] st0")
  obtain r2 st2 where s2: "set_one_signal_handler SIGPIPE SIG_IGN False st1 = (r2, st2)"
    by (cases "set_one_signal_handler SIGPIPE SIG_IGN False st1")
  note p = set_one_signal_handler_frame [OF s2]
  from assms(1) s1 s2 have r1: "r1 \<noteq> - 1" and st: "st = st2\<lparr>fuse_instance := Some A\<rparr>"
    by (auto simp: fuse_set_signal_handlers_def split: if_splits)
  from r1 set_sources_result [OF s1] have "r1 = 0" by simp
  with s1 have "set_sources createA [0..<fuse_unmount_signals_count] st0 = (0, st1)" by simp
  from set_sources_done [OF this] have
    src: "\<forall>i. fuse_unmount_sources st1 i =
           (if i \<in> set [0..<fuse_unmount_signals_count] then createA (fuse_unmount_signals ! i)
            else fuse_unmount_sources st0 i)"
    by simp
  from assms(3) obtain i where i: "i < fuse_unmount_signals_count" "createA (fuse_unmount_signals ! i) \<noteq> None"
    by blast
  with src have "fuse_unmount_sources st1 i \<noteq> None" by simp
  then have "fuse_unmount_sources st i \<noteq> None" using st p(2) by simp
  with i(1) show "\<exists>j<fuse_unmount_signals_count. fuse_unmount_sources st j \<noteq> None" by blast
  show "fuse_instance st = Some A" using st by simp
qed

lemma other_platform_registrations:
  "fuse_set_signal_handlers Other_platform c (Some a) sig_state0 = (0, registered_other a)"
  "fuse_set_signal_handlers Other_platform c (Some b) (registered_other a) = (0, registered_other b)"
  "sig_log (registered_other b) = []"
  "fuse_instance (registered_other b) = Some b"
  by (simp_all add: fuse_set_signal_handlers_def registered_other_def sig_state0_def
      set_one_signal_handler_def sigaction_get_def sigaction_set_def
      SIGHUP_def SIGINT_def SIGTERM_def SIGPIPE_def SIGKILL_def SIGSTOP_def)

text \<open>
  Claim C3, as the code has it. On macOS the guard of \<open>fuse_set_signal_handlers\<close> is
  the array of dispatch sources. Whenever a source of an earlier registration is
  still in a slot, a registration (of any session \<open>B\<close>, with any outcome of
  \<open>dispatch_source_create\<close>) returns \<open>-1\<close>, ends with a message on \<open>stderr\<close> and
  leaves \<open>fuse_instance\<close> as it was; nothing in the call can stop the process, every
  path returns. That is the state right after a session \<open>A\<close> registered in a
  process without sources and at least one of its three sources was created: then
  \<open>A\<close> is the registered session, and registering \<open>B\<close> is reported and leaves \<open>A\<close>
  registered. On the other platform nothing looks at an earlier registration: in a
  process with default dispositions, any session \<open>A'\<close> registers with \<open>0\<close>, and any
  \<open>B'\<close> registering after it gets \<open>0\<close> as well, prints nothing and replaces \<open>A'\<close>.
\<close>

theorem second_registration_is_reported:
  "((\<exists>i<fuse_unmount_signals_count. fuse_unmount_sources st i \<noteq> None) \<longrightarrow>
      (\<exists>st' msgs m. fuse_set_signal_handlers MacOS createB B st = (- 1, st')
          \<and> sig_log st' = sig_log st @ msgs @ [Stderr m]
          \<and> fuse_instance st' = fuse_instance st))
   \<and> (fuse_set_signal_handlers MacOS createA (Some A) st0 = (0, st1)
        \<and> (\<forall>i<fuse_unmount_signals_count. fuse_unmount_sources st0 i = None)
        \<and> (\<exists>i<fuse_unmount_signals_count. createA (fuse_unmount_signals ! i) \<noteq> None) \<longrightarrow>
      fuse_instance st1 = Some A
        \<and> (\<exists>i<fuse_unmount_signals_count. fuse_unmount_sources st1 i \<noteq> None)
        \<and> (\<exists>st' msgs m. fuse_set_signal_handlers MacOS createB B st1 = (- 1, st')
              \<and> sig_log st' = sig_log st1 @ msgs @ [Stderr m]
              \<and> fuse_instance st' = Some A))
   \<and> fuse_set_signal_handlers Other_platform c (Some A') sig_state0 = (0, registered_other A')
   \<and> fuse_set_signal_handlers Other_platform c (Some B') (registered_other A') =
        (0, registered_other B')
   \<and> sig_log (registered_other B') = []
   \<and> fuse_instance (registered_other B') = Some B'"
proof (intro conjI impI)
  assume "\<exists>i<fuse_unmount_signals_count. fuse_unmount_sources st i \<noteq> None"
  then show "\<exists>st' msgs m. fuse_set_signal_handlers MacOS createB B st = (- 1, st')
          \<and> sig_log st' = sig_log st @ msgs @ [Stderr m]
          \<and> fuse_instance st' = fuse_instance st"
    by (rule set_signal_handlers_occupied)
next
  assume a: "fuse_set_signal_handlers MacOS createA (Some A) st0 = (0, st1)
        \<and> (\<forall>i<fuse_unmount_signals_count. fuse_unmount_sources st0 i = None)
        \<and> (\<exists>i<fuse_unmount_signals_count. createA (fuse_unmount_signals ! i) \<noteq> None)"
  then have reg: "fuse_set_signal_handlers MacOS createA (Some A) st0 = (0, st1)"
    and none: "\<forall>i<fuse_unmount_signals_count. fuse_unmount_sources st0 i = None"
    and some: "\<exists>i<fuse_unmount_signals_count. createA (fuse_unmount_signals ! i) \<noteq> None"
    by blast+
  show inst: "fuse_instance st1 = Some A"
    by (rule first_registration_leaves_source(1) [OF reg none some])
  show occ: "\<exists>i<fuse_unmount_signals_count. fuse_unmount_sources st1 i \<noteq> None"
    by (rule first_registration_leaves_source(2) [OF reg none some])
  from set_signal_handlers_occupied [OF occ, of createB B] inst
  show "\<exists>st' msgs m. fuse_set_signal_handlers MacOS createB B st1 = (- 1, st')
              \<and> sig_log st' = sig_log st1 @ msgs @ [Stderr m]
              \<and> fuse_instance st' = Some A"
    by auto
next
  show "fuse_set_signal_handlers Other_platform c (Some A') sig_state0 = (0, registered_other A')"
    by (rule other_platform_registrations)
  show "fuse_set_signal_handlers Other_platform c (Some B') (registered_other A') =
        (0, registered_other B')"
    by (rule other_platform_registrations)
  show "sig_log (registered_other B') = []"
    by (rule other_platform_registrations)
  show "fuse_instance (registered_other B') = Some B'"
    by (rule other_platform_registrations)
qed

text \<open>
  The theorem at a concrete state: session \<open>10\<close> registers on macOS in a fresh
  process where every source is created; the registration of \<open>11\<close> that follows is
  refused with a message and \<open>10\<close> stays registered.
\<close>

theorem second_registration_is_reported_witness:
  "fuse_set_signal_handlers MacOS create_all (Some 10) sig_state0 = (0, sig_state_A)
   \<and> fuse_unmount_sources sig_state0 0 = None
   \<and> create_all (fuse_unmount_signals ! 0) \<noteq> None
   \<and> fuse_instance sig_state_A = Some 10
   \<and> (\<exists>i<fuse_unmount_signals_count. fuse_unmount_sources sig_state_A i \<noteq> None)
   \<and> (\<exists>st' msgs m. fuse_set_signal_handlers MacOS create_all (Some 11) sig_state_A = (- 1, st')
         \<and> sig_log st' = sig_log sig_state_A @ msgs @ [Stderr m]
         \<and> fuse_instance st' = Some 10)"
proof -
  have h2: "\<forall>i<fuse_unmount_signals_count. fuse_unmount_sources sig_state0 i = None"
    by (simp add: sig_state0_def)
  have h3: "\<exists>i<fuse_unmount_signals_count. create_all (fuse_unmount_signals ! i) \<noteq> None"
    by (rule exI [of _ 0]) (simp add: create_all_def fuse_unmount_signals_count_def fuse_unmount_signals_def)
  have t: "fuse_instance sig_state_A = Some 10
        \<and> (\<exists>i<fuse_unmount_signals_count. fuse_unmount_sources sig_state_A i \<noteq> None)
        \<and> (\<exists>st' msgs m. fuse_set_signal_handlers MacOS create_all (Some 11) sig_state_A = (- 1, st')
              \<and> sig_log st' = sig_log sig_state_A @ msgs @ [Stderr m]
              \<and> fuse_instance st' = Some 10)"
    using second_registration_is_reported
            [of sig_state_A create_all "Some 11" create_all 10 sig_state0 sig_state_A]
      sig_state_A_eq h2 h3
    by blast
  show ?thesis
    using t sig_state_A_eq by (simp add: sig_state0_def create_all_def)
qed

text \<open>
  Against the claim as stated (for every pair of sessions, on either platform): in
  the branch for the other platforms nothing looks at an earlier registration. In a
  fresh process session \<open>10\<close> registers, then session \<open>11\<close>: the second call finds the
  handlers already in place, changes nothing, prints nothing, stores \<open>11\<close> in
  \<open>fuse_instance\<close> and returns \<open>0\<close>.
\<close>

theorem second_registration_silent_counterexample:
  "fuse_set_signal_handlers Other_platform create_all (Some 10) sig_state0 =
     (0, registered_other 10)
   \<and> fuse_set_signal_handlers Other_platform create_all (Some 11) (registered_other 10) =
     (0, registered_other 11)
   \<and> sig_log (registered_other 11) = []
   \<and> fuse_instance (registered_other 11) = Some 11"
  by (simp add: fuse_set_signal_handlers_def registered_other_def sig_state0_def
      set_one_signal_handler_def sigaction_get_def sigaction_set_def
      SIGHUP_def SIGINT_def SIGTERM_def SIGPIPE_def SIGKILL_def SIGSTOP_def)

subsection \<open>The dispatch loop\<close>

lemma world4_eq:
  "world4 =
     \<lparr>chans = [7 \<mapsto> \<lparr>ch_retain_count = 1, ch_op = chan_ops0, ch_se = Some 10, ch_fd = 3,
        ch_disk = None, ch_bufsize = 4096, ch_data = None, ch_compat = 0\<rparr>],
      sessions = [10 \<mapsto> session0\<lparr>se_ch := Some 7\<rparr>], cf = (\<lambda>_. 0), log = []\<rparr>"
  by (simp add: world4_def world2_def world1_eq fuse_session_add_chan_def session0_def)

lemma dispatch_loop_interrupted:
  "dispatch_loop grp queue (Read (- EINTR) tmpch m # ts) res w =
     dispatch_loop grp queue ts (- EINTR) w"
  by (simp add: loop_pass_def)

lemma dispatch_loop_stops:
  "r \<le> 0 \<Longrightarrow> r \<noteq> - EINTR \<Longrightarrow>
     dispatch_loop grp queue (Read r tmpch m # ts) res w = Some (r, w)"
  by (simp add: loop_pass_def)

lemma dispatch_loop_alloc_fails:
  "0 < r \<Longrightarrow>
     dispatch_loop grp queue (Read r tmpch None # ts) res w =
       Some (- 1, emit (Stderr (''fuse: failed to allocate process buffer'' @ [CHR 0x0A])) w)"
  by (simp add: loop_pass_def EINTR_def)

text \<open>
  Claim C5 says that an interrupted read (\<open>-EINTR\<close>) is retried and not counted as an
  error. The loop does go back to its test without a message
  (\<open>dispatch_loop_interrupted\<close>), but \<open>res\<close> keeps the value \<open>-EINTR\<close>; when the
  session has exited by then, the loop ends with that negative \<open>res\<close> and the function
  returns \<open>-1\<close>, its value for a failure. In \<open>world4\<close>, with every allocation
  succeeding: one interrupted read and then the exit give \<open>-1\<close>, where the exit alone
  gives \<open>0\<close>, with the same final state. The other two parts of the claim hold
  (\<open>dispatch_loop_stops\<close>, \<open>dispatch_loop_alloc_fails\<close>).
\<close>

theorem interrupted_read_then_exit_returns_error:
  "fuse_session_loop_dispatch 10 env_ok [Read (- EINTR) (Some 7) None, Exit_seen] world4 =
     Some (Inr (- 1, loop_end))
   \<and> fuse_session_loop_dispatch 10 env_ok [Exit_seen] world4 = Some (Inr (0, loop_end))"
  by (simp add: fuse_session_loop_dispatch_def fuse_session_next_chan_def fuse_chan_bufsize_def
      world4_eq env_ok_def loop_out_def fuse_session_reset_def emit_def session0_def EINTR_def
      loop_end_def loop_pass_def)

subsection \<open>The worker pool\<close>

lemma do_work_not_returned: "do_work t reads procd \<noteq> Returned"
  by (induction t reads procd rule: do_work.induct) auto

lemma do_work_failure:
  "None \<in> set reads \<Longrightarrow>
     do_work t reads procd = Process_exit 1 (procd @ map (Pair t) (cmds_before_failure reads))"
  by (induction t reads procd rule: do_work.induct) auto

lemma mt_step_keeps:
  assumes "mt_status s = Running \<longrightarrow> reads = map (Some \<circ> snd) (mt_procs s) @ mt_reads s"
  shows "mt_status (mt_step m s) = Running \<longrightarrow>
           reads = map (Some \<circ> snd) (mt_procs (mt_step m s)) @ mt_reads (mt_step m s)"
  using assms
  by (auto simp: mt_step_def start_thread_def do_work_pass_def
      split: move.splits list.splits option.splits)

lemma mt_run_keeps:
  assumes "mt_status s = Running \<longrightarrow> reads = map (Some \<circ> snd) (mt_procs s) @ mt_reads s"
  shows "mt_status (mt_run ms s) = Running \<longrightarrow>
           reads = map (Some \<circ> snd) (mt_procs (mt_run ms s)) @ mt_reads (mt_run ms s)"
  using assms
proof (induction ms arbitrary: s)
  case Nil
  then show ?case by simp
next
  case (Cons m ms)
  from mt_step_keeps [OF Cons.prems] show ?case
    using Cons.IH [of "mt_step m s"] by simp
qed

lemma mt_step_status:
  assumes "mt_status s = Running \<or> mt_status s = Exited 1"
  shows "mt_status (mt_step m s) = Running \<or> mt_status (mt_step m s) = Exited 1"
  using assms
  by (auto simp: mt_step_def start_thread_def do_work_pass_def
      split: move.splits list.splits option.splits)

lemma mt_run_status:
  assumes "mt_status s = Running \<or> mt_status s = Exited 1"
  shows "mt_status (mt_run ms s) = Running \<or> mt_status (mt_run ms s) = Exited 1"
  using assms
proof (induction ms arbitrary: s)
  case Nil
  then show ?case by simp
next
  case (Cons m ms)
  from mt_step_status [OF Cons.prems] show ?case
    using Cons.IH [of "mt_step m s"] by simp
qed

lemma do_work_passes:
  assumes "mt_status s = Running" "thread_runs t s"
  shows "do_work t (mt_reads s) (mt_procs s) =
           outcome_of (mt_run (replicate (length (mt_reads s)) (Pass t)) s)"
  using assms
proof (induction "mt_reads s" arbitrary: s)
  case Nil
  then show ?case by (simp add: outcome_of_def)
next
  case (Cons c cs)
  show ?case
  proof (cases c)
    case None
    let ?s1 = "s\<lparr>mt_status := Exited 1, mt_reads := cs\<rparr>"
    have step: "mt_step (Pass t) s = ?s1"
      using Cons.prems Cons.hyps(2) [symmetric] None by (simp add: mt_step_def do_work_pass_def)
    have dead: "mt_run ms ?s1 = ?s1" for ms
      by (induction ms) (auto simp: mt_step_def)
    show ?thesis
      using Cons.hyps(2) [symmetric] None step dead by (simp add: outcome_of_def)
  next
    case (Some a)
    let ?s1 = "s\<lparr>mt_reads := cs, mt_procs := mt_procs s @ [(t, a)]\<rparr>"
    have step: "mt_step (Pass t) s = ?s1"
      using Cons.prems Cons.hyps(2) [symmetric] Some by (simp add: mt_step_def do_work_pass_def)
    have "cs = mt_reads ?s1" "mt_status ?s1 = Running" "thread_runs t ?s1"
      using Cons.prems by (simp_all add: thread_runs_def)
    from Cons.hyps(1) [OF this] step Cons.hyps(2) [symmetric] Some
    show ?thesis by simp
  qed
qed

text \<open>
  Claim C6. A worker never returns to its caller; run on its own, a worker whose
  reads contain a failure ends the process with status \<open>1\<close>, after the commands
  read before the failure and none after. In the pool, a failed read in any running
  thread, the calling thread \<open>0\<close> included, ends the process with status \<open>1\<close> and
  calls no processor. Over every schedule of the pool: while the process runs, each
  read so far gave a command and that command went to the processor once, in order;
  and a process that has exited has exited with \<open>1\<close>.
\<close>

theorem worker_read_failure_exits_process:
  "do_work t reads procd \<noteq> Returned
   \<and> (None \<in> set reads \<longrightarrow>
        do_work t reads procd = Process_exit 1 (procd @ map (Pair t) (cmds_before_failure reads)))
   \<and> (mt_status s = Running \<and> thread_runs t s \<and> mt_reads s = None # rs \<longrightarrow>
        mt_status (mt_step (Pass t) s) = Exited 1 \<and> mt_procs (mt_step (Pass t) s) = mt_procs s)
   \<and> (mt_status (mt_run ms (mt_init reads)) = Running \<longrightarrow>
        reads = map (Some \<circ> snd) (mt_procs (mt_run ms (mt_init reads)))
                  @ mt_reads (mt_run ms (mt_init reads)))
   \<and> (\<forall>n. mt_status (mt_run ms (mt_init reads)) = Exited n \<longrightarrow> n = 1)"
proof (intro conjI impI allI)
  show "do_work t reads procd \<noteq> Returned" by (rule do_work_not_returned)
next
  assume "None \<in> set reads"
  then show "do_work t reads procd = Process_exit 1 (procd @ map (Pair t) (cmds_before_failure reads))"
    by (rule do_work_failure)
next
  assume a: "mt_status s = Running \<and> thread_runs t s \<and> mt_reads s = None # rs"
  then show "mt_status (mt_step (Pass t) s) = Exited 1"
    by (simp add: mt_step_def do_work_pass_def)
  from a show "mt_procs (mt_step (Pass t) s) = mt_procs s"
    by (simp add: mt_step_def do_work_pass_def)
next
  assume r: "mt_status (mt_run ms (mt_init reads)) = Running"
  have "mt_status (mt_init reads) = Running \<longrightarrow>
      reads = map (Some \<circ> snd) (mt_procs (mt_init reads)) @ mt_reads (mt_init reads)"
    by (simp add: mt_init_def)
  from mt_run_keeps [OF this, of ms] r
  show "reads = map (Some \<circ> snd) (mt_procs (mt_run ms (mt_init reads)))
                  @ mt_reads (mt_run ms (mt_init reads))" by simp
next
  fix n assume e: "mt_status (mt_run ms (mt_init reads)) = Exited n"
  have "mt_status (mt_init reads) = Running \<or> mt_status (mt_init reads) = Exited 1"
    by (simp add: mt_init_def)
  from mt_run_status [OF this, of ms] e show "n = 1" by auto
qed

text \<open>
  The theorem at concrete inputs: a worker alone whose second read fails; the pool
  with all threads created, where the calling thread's read fails; and a schedule
  in which thread \<open>1\<close> and thread \<open>3\<close> each process a command before the read of the
  calling thread fails.
\<close>

theorem worker_read_failure_exits_process_witness:
  "None \<in> set [Some 1, None, Some 2]
   \<and> do_work 0 [Some 1, None, Some 2] [] = Process_exit 1 [(0, 1)]
   \<and> mt_status pool_ready = Running \<and> thread_runs 0 pool_ready
   \<and> mt_reads pool_ready = [None, Some 9]
   \<and> mt_status (mt_step (Pass 0) pool_ready) = Exited 1
   \<and> mt_run pool_schedule (mt_init [Some 1, Some 2, None, Some 3]) =
       \<lparr>mt_status = Exited 1, mt_reads = [Some 3], mt_procs = [(1, 1), (3, 2)], mt_started = 4,
        mt_log = []\<rparr>"
proof -
  have m: "None \<in> set [Some 1, None, Some (2::nat)]" by simp
  have p: "mt_status pool_ready = Running \<and> thread_runs 0 pool_ready
      \<and> mt_reads pool_ready = None # [Some 9]"
    by (simp add: pool_ready_def mt_init_def mt_step_def start_thread_def thread_runs_def
        FUSE_NUM_WORKERS_def)
  have r: "mt_run pool_schedule (mt_init [Some 1, Some 2, None, Some 3]) =
       \<lparr>mt_status = Exited 1, mt_reads = [Some 3], mt_procs = [(1, 1), (3, 2)], mt_started = 4,
        mt_log = []\<rparr>"
    by (simp add: pool_schedule_def mt_init_def mt_step_def start_thread_def do_work_pass_def
        thread_runs_def FUSE_NUM_WORKERS_def)
  show ?thesis
    using worker_read_failure_exits_process
            [of 0 "[Some 1, None, Some 2]" "[]" pool_ready "[Some 9]" pool_schedule] m p r
    by simp
qed

subsection \<open>The dispatch loop and its blocks\<close>





text \<open>What one pass of the loop does to the state, and that its verdict and \<open>res\<close> do not depend on the state.\<close>

lemma loop_pass_exit: "loop_pass grp queue Exit_seen res w = (False, res, w)"
  by (simp add: loop_pass_def)





























end
